theory Spec2Isabelle
  imports Main "HOL-Library.Word" "HOL-Library.Sublist"
begin

section \<open>The C interface of multi\_usrp (host/lib/usrp/usrp\_c.cpp)\<close>

text \<open>
  The file wraps the C++ class \<open>multi_usrp\<close> and its streamers in C functions. All
  C++ objects live in a process-wide registry (\<open>get_usrp_ptrs()\<close>, a
  \<open>std::map<size_t, usrp_ptr>\<close>); the C caller only holds small handle structs
  that carry an index into the registry.

  Conventions of the model:
  \<^item> \<open>size_t\<close> is a 64-bit word; \<open>usrp_counter++\<close> wraps around.
  \<^item> A \<open>boost::shared_ptr\<close> to a native object is the identity of that object
    (a natural number); the null pointer is \<open>None\<close>.
  \<^item> A \<open>std::vector\<close> is a list. Its size always fits \<open>size_t\<close>; theorems that
    read an offset back assume the list is shorter than \<open>2 ^ 64\<close>.
  \<^item> A call into the native library is a parameter of the operation: what the
    call returns or the fault it throws.
  \<^item> Dereferencing a null shared pointer, indexing a vector out of range and
    dereferencing a null handle pointer are undefined behaviour; the model stops there
    and reports the state reached.
\<close>

subsection \<open>Error codes, faults and the two wrapper macros\<close>

type_synonym size_t = "64 word"
type_synonym sptr = nat

text \<open>
  Modelled from the spec: the header \<open>uhd/error.h\<close> (the enumeration \<open>uhd_error\<close>
  and the macros \<open>UHD_SAFE_C\<close> and \<open>UHD_SAFE_C_SAVE_ERROR\<close>) is not among the
  sources. The spec names the codes \<open>NONE\<close> and \<open>INVALID_DEVICE\<close> and generic
  \<open>RUNTIME\<close> / \<open>UNKNOWN\<close> categories for any fault of the native library.
\<close>

datatype uhd_error =
    UHD_ERROR_NONE
  | UHD_ERROR_INVALID_DEVICE
  | UHD_ERROR_RUNTIME
  | UHD_ERROR_UNKNOWN

datatype fault_category = Runtime_fault | Unknown_fault

datatype fault = Fault (category: fault_category) (what: string)

fun error_from_fault :: "fault \<Rightarrow> uhd_error" where
  "error_from_fault (Fault Runtime_fault _) = UHD_ERROR_RUNTIME"
| "error_from_fault (Fault Unknown_fault _) = UHD_ERROR_UNKNOWN"

text \<open>
  How the statements between the parentheses of a macro end: they run to the end,
  execute \<open>return code;\<close>, throw, or run into undefined behaviour. Each carries
  the state reached.
\<close>

datatype 'a body =
    Falls_through 'a
  | Early_return uhd_error 'a
  | Throws fault 'a
  | Undefined_behaviour 'a

datatype 'a result =
    Returns uhd_error 'a
  | No_return 'a

text \<open>
  Modelled from the spec: \<open>UHD_SAFE_C\<close> catches every fault and turns it into its
  status code; it is given no handle, so it stores no text. \<open>UHD_SAFE_C_SAVE_ERROR\<close>
  is given the handle and writes the fault's text into its \<open>last_error\<close> (the first
  argument below is that write). The spec does not say what the second macro does to
  \<open>last_error\<close> when the body succeeds; it is left as it was.
\<close>

fun UHD_SAFE_C :: "'a body \<Rightarrow> 'a result" where
  "UHD_SAFE_C (Falls_through s) = Returns UHD_ERROR_NONE s"
| "UHD_SAFE_C (Early_return e s) = Returns e s"
| "UHD_SAFE_C (Throws f s) = Returns (error_from_fault f) s"
| "UHD_SAFE_C (Undefined_behaviour s) = No_return s"

fun UHD_SAFE_C_SAVE_ERROR :: "(string \<Rightarrow> 'a \<Rightarrow> 'a) \<Rightarrow> 'a body \<Rightarrow> 'a result" where
  "UHD_SAFE_C_SAVE_ERROR save (Falls_through s) = Returns UHD_ERROR_NONE s"
| "UHD_SAFE_C_SAVE_ERROR save (Early_return e s) = Returns e s"
| "UHD_SAFE_C_SAVE_ERROR save (Throws f s) = Returns (error_from_fault f) (save (what f) s)"
| "UHD_SAFE_C_SAVE_ERROR save (Undefined_behaviour s) = No_return s"

fun state_of :: "'a result \<Rightarrow> 'a" where
  "state_of (Returns e s) = s"
| "state_of (No_return s) = s"

subsection \<open>Handles and the registry\<close>

text \<open>
  \<open>struct uhd_usrp\<close> has the fields \<open>usrp_index\<close> and \<open>last_error\<close>;
  \<open>struct uhd_rx_streamer\<close> and \<open>struct uhd_tx_streamer\<close> have these two and
  \<open>streamer_index\<close>, so both are the one record \<open>uhd_streamer\<close>.
\<close>

record uhd_usrp =
  usrp_index :: size_t
  last_error :: string

record uhd_streamer = uhd_usrp +
  streamer_index :: size_t

record usrp_ptr =
  ptr :: "sptr option"
  rx_streamers :: "sptr list"
  tx_streamers :: "sptr list"

text \<open>
  The global state of the file: the static \<open>usrp_ptr::usrp_counter\<close> and the
  singleton map behind \<open>get_usrp_ptrs()\<close>.
\<close>

record globals =
  usrp_counter :: size_t
  get_usrp_ptrs :: "size_t \<rightharpoonup> usrp_ptr"

definition default_usrp_ptr :: usrp_ptr where
  "default_usrp_ptr = \<lparr>ptr = None, rx_streamers = [], tx_streamers = []\<rparr>"

text \<open>
  \<open>std::map::operator[]\<close>: an absent key is inserted with a default-constructed
  value, and a reference to the value is returned.
\<close>

definition map_index :: "globals \<Rightarrow> size_t \<Rightarrow> globals \<times> usrp_ptr" where
  "map_index g i =
     (case get_usrp_ptrs g i of
        Some e \<Rightarrow> (g, e)
      | None \<Rightarrow> (g\<lparr>get_usrp_ptrs := (get_usrp_ptrs g)(i \<mapsto> default_usrp_ptr)\<rparr>,
                 default_usrp_ptr))"

text \<open>\<open>std::map::count\<close>: 1 when the key is present, 0 otherwise; it inserts nothing.\<close>

definition map_count :: "globals \<Rightarrow> size_t \<Rightarrow> nat" where
  "map_count g i = (case get_usrp_ptrs g i of Some e \<Rightarrow> 1 | None \<Rightarrow> 0)"

text \<open>
  The three access macros. \<open>USRP(h)\<close> is \<open>get_usrp_ptrs()[h->usrp_index].ptr\<close>;
  the streamer macros index the entry's vector with \<open>h->streamer_index\<close>, which
  is undefined out of range (\<open>None\<close> here).
\<close>

definition USRP :: "globals \<Rightarrow> uhd_usrp \<Rightarrow> globals \<times> sptr option" where
  "USRP g h = (let (g', e) = map_index g (usrp_index h) in (g', ptr e))"

definition vector_index :: "sptr list \<Rightarrow> size_t \<Rightarrow> sptr option" where
  "vector_index v i = (if unat i < length v then Some (v ! unat i) else None)"

definition RX_STREAMER :: "globals \<Rightarrow> uhd_streamer \<Rightarrow> globals \<times> sptr option" where
  "RX_STREAMER g h =
     (let (g', e) = map_index g (usrp_index h)
      in (g', vector_index (rx_streamers e) (streamer_index h)))"

definition TX_STREAMER :: "globals \<Rightarrow> uhd_streamer \<Rightarrow> globals \<times> sptr option" where
  "TX_STREAMER g h =
     (let (g', e) = map_index g (usrp_index h)
      in (g', vector_index (tx_streamers e) (streamer_index h)))"

subsection \<open>Locks and native calls in program order\<close>

text \<open>
  Each operation that takes one of the file's mutexes keeps, as the last component of
  its state, the events of the call in the order the source executes them. The
  statements of a body report the native code they run; the lock and unlock events
  come from the \<open>scoped_lock\<close> that the body declares.
\<close>

datatype mutex =
    usrp_make_mutex
  | usrp_free_mutex
  | usrp_get_rx_stream_mutex
  | usrp_get_tx_stream_mutex
  | rx_streamer_free_mutex
  | tx_streamer_free_mutex

datatype event = Lock mutex | Unlock mutex | Native string

text \<open>Where a state of three and of four components keeps its events.\<close>

fun events3 :: "(event list \<Rightarrow> event list) \<Rightarrow> 'a \<times> 'b \<times> event list \<Rightarrow> 'a \<times> 'b \<times> event list" where
  "events3 f (a, b, es) = (a, b, f es)"

fun events4 ::
  "(event list \<Rightarrow> event list) \<Rightarrow> 'a \<times> 'b \<times> 'c \<times> event list \<Rightarrow> 'a \<times> 'b \<times> 'c \<times> event list"
where
  "events4 f (a, b, c, es) = (a, b, c, f es)"

text \<open>
  \<open>boost::mutex::scoped_lock lock(m);\<close> as the first statement of a body: the
  mutex is locked before the rest of the body runs, and the destructor of \<open>lock\<close>
  unlocks it when the body is left, by running to its end, by \<open>return\<close> or by a
  throw that unwinds the block. Nothing unlocks it when the body runs into undefined
  behaviour.
\<close>

fun scoped_lock ::
  "mutex \<Rightarrow> ((event list \<Rightarrow> event list) \<Rightarrow> 's \<Rightarrow> 's) \<Rightarrow> 's body \<Rightarrow> 's body"
where
  "scoped_lock m events (Falls_through s) =
     Falls_through (events (\<lambda>es. Lock m # es @ [Unlock m]) s)"
| "scoped_lock m events (Early_return e s) =
     Early_return e (events (\<lambda>es. Lock m # es @ [Unlock m]) s)"
| "scoped_lock m events (Throws f s) =
     Throws f (events (\<lambda>es. Lock m # es @ [Unlock m]) s)"
| "scoped_lock m events (Undefined_behaviour s) =
     Undefined_behaviour (events (\<lambda>es. Lock m # es) s)"

subsection \<open>Creating and destroying a device\<close>

text \<open>
  \<open>uhd_usrp_make(h, args)\<close>. The argument \<open>made\<close> is the outcome of constructing
  the device address from \<open>args\<close> and of \<open>multi_usrp::make\<close>: the new device or
  the fault thrown. \<open>h\<close> is what the caller's handle variable points to.
\<close>

definition uhd_usrp_make ::
  "globals \<Rightarrow> uhd_usrp option \<Rightarrow> fault + sptr \<Rightarrow> (globals \<times> uhd_usrp option \<times> event list) result"
where
  "uhd_usrp_make g h made = UHD_SAFE_C (scoped_lock usrp_make_mutex events3
     (let usrp_count = usrp_counter g;
          g1 = g\<lparr>usrp_counter := usrp_counter g + 1\<rparr>
      in case made of
           Inl f \<Rightarrow> Throws f (g1, h, [Native ''multi_usrp::make''])
         | Inr d \<Rightarrow>
             let P = \<lparr>ptr = Some d, rx_streamers = [], tx_streamers = []\<rparr>;
                 g2 = g1\<lparr>get_usrp_ptrs := (get_usrp_ptrs g1)(usrp_count \<mapsto> P)\<rparr>
             in Falls_through
                  (g2, Some \<lparr>usrp_index = usrp_count, last_error = ''''\<rparr>,
                   [Native ''multi_usrp::make''])))"

text \<open>
  \<open>uhd_usrp_free(h)\<close>: the presence check, then \<open>erase\<close>, \<open>delete *h\<close> and
  \<open>*h = NULL\<close>. \<open>erase\<close> destroys the entry, which releases the device and
  every streamer of its two collections: the destructors of the native library run
  inside the call.

  When \<open>*h\<close> is null, the check passes \<open>(*h)->usrp_index\<close> to \<open>count\<close> by
  reference, a reference to the null address, since \<open>usrp_index\<close> is the first
  member. \<open>count\<close> reads the key only to compare it with a stored key: on an empty
  map nothing is read and the check finds 0 entries; on a map with an entry the key is
  read through the null pointer.
\<close>

definition uhd_usrp_free ::
  "globals \<Rightarrow> uhd_usrp option \<Rightarrow> (globals \<times> uhd_usrp option \<times> event list) result"
where
  "uhd_usrp_free g h = UHD_SAFE_C (scoped_lock usrp_free_mutex events3
     (case h of
        None \<Rightarrow>
          if get_usrp_ptrs g = Map.empty
          then Early_return UHD_ERROR_INVALID_DEVICE (g, h, [])
          else Undefined_behaviour (g, h, [])
      | Some u \<Rightarrow>
          if map_count g (usrp_index u) = 0
          then Early_return UHD_ERROR_INVALID_DEVICE (g, h, [])
          else Falls_through
                 (g\<lparr>get_usrp_ptrs := (get_usrp_ptrs g)(usrp_index u := None)\<rparr>, None,
                  [Native ''~usrp_ptr''])))"

subsection \<open>Attaching a streamer to a device\<close>

text \<open>
  \<open>uhd_usrp_get_rx_stream(h_u, stream_args, h_s)\<close>. \<open>get_rx_stream\<close> is the
  native method of the device, applied to the converted stream arguments: it returns
  the new streamer or throws.
\<close>

definition uhd_usrp_get_rx_stream ::
  "(sptr \<Rightarrow> fault + sptr) \<Rightarrow> globals \<Rightarrow> uhd_usrp \<Rightarrow> uhd_streamer \<Rightarrow>
   (globals \<times> uhd_usrp \<times> uhd_streamer \<times> event list) result"
where
  "uhd_usrp_get_rx_stream get_rx_stream g h_u h_s =
     UHD_SAFE_C (scoped_lock usrp_get_rx_stream_mutex events4
     (if map_count g (usrp_index h_u) = 0
      then Early_return UHD_ERROR_INVALID_DEVICE (g, h_u, h_s, [])
      else
        let (g1, usrp) = map_index g (usrp_index h_u)
        in (case ptr usrp of
              None \<Rightarrow> Undefined_behaviour (g1, h_u, h_s, [])
            | Some d \<Rightarrow>
                (case get_rx_stream d of
                   Inl f \<Rightarrow> Throws f (g1, h_u, h_s, [Native ''get_rx_stream''])
                 | Inr s \<Rightarrow>
                     (let usrp' = usrp\<lparr>rx_streamers := rx_streamers usrp @ [s]\<rparr>;
                          g2 = g1\<lparr>get_usrp_ptrs :=
                                    (get_usrp_ptrs g1)(usrp_index h_u \<mapsto> usrp')\<rparr>
                      in Falls_through
                           (g2, h_u,
                            h_s\<lparr>usrp_index := usrp_index h_u,
                                streamer_index := of_nat (length (rx_streamers usrp')) - 1\<rparr>,
                            [Native ''get_rx_stream'']))))))"

definition uhd_usrp_get_tx_stream ::
  "(sptr \<Rightarrow> fault + sptr) \<Rightarrow> globals \<Rightarrow> uhd_usrp \<Rightarrow> uhd_streamer \<Rightarrow>
   (globals \<times> uhd_usrp \<times> uhd_streamer \<times> event list) result"
where
  "uhd_usrp_get_tx_stream get_tx_stream g h_u h_s =
     UHD_SAFE_C (scoped_lock usrp_get_tx_stream_mutex events4
     (if map_count g (usrp_index h_u) = 0
      then Early_return UHD_ERROR_INVALID_DEVICE (g, h_u, h_s, [])
      else
        let (g1, usrp) = map_index g (usrp_index h_u)
        in (case ptr usrp of
              None \<Rightarrow> Undefined_behaviour (g1, h_u, h_s, [])
            | Some d \<Rightarrow>
                (case get_tx_stream d of
                   Inl f \<Rightarrow> Throws f (g1, h_u, h_s, [Native ''get_tx_stream''])
                 | Inr s \<Rightarrow>
                     (let usrp' = usrp\<lparr>tx_streamers := tx_streamers usrp @ [s]\<rparr>;
                          g2 = g1\<lparr>get_usrp_ptrs :=
                                    (get_usrp_ptrs g1)(usrp_index h_u \<mapsto> usrp')\<rparr>
                      in Falls_through
                           (g2, h_u,
                            h_s\<lparr>usrp_index := usrp_index h_u,
                                streamer_index := of_nat (length (tx_streamers usrp')) - 1\<rparr>,
                            [Native ''get_tx_stream'']))))))"

subsection \<open>Allocating and freeing streamer handles\<close>

text \<open>
  \<open>uhd_rx_streamer_make\<close> and \<open>uhd_tx_streamer_make\<close> store a
  \<open>new uhd_rx_streamer\<close> (\<open>uhd_tx_streamer\<close>) in \<open>*h\<close>: the string is empty and
  the two indices are not initialised; the arguments \<open>u\<close> and \<open>s\<close> are whatever the
  memory holds. Neither function touches the registry.
\<close>

definition uhd_rx_streamer_make ::
  "globals \<Rightarrow> uhd_streamer option \<Rightarrow> size_t \<Rightarrow> size_t \<Rightarrow> (globals \<times> uhd_streamer option) result"
where
  "uhd_rx_streamer_make g h u s = UHD_SAFE_C
     (Falls_through (g, Some \<lparr>usrp_index = u, last_error = [], streamer_index = s\<rparr>))"

definition uhd_tx_streamer_make ::
  "globals \<Rightarrow> uhd_streamer option \<Rightarrow> size_t \<Rightarrow> size_t \<Rightarrow> (globals \<times> uhd_streamer option) result"
where
  "uhd_tx_streamer_make g h u s = UHD_SAFE_C
     (Falls_through (g, Some \<lparr>usrp_index = u, last_error = [], streamer_index = s\<rparr>))"

text \<open>
  \<open>uhd_rx_streamer_free\<close> and \<open>uhd_tx_streamer_free\<close>: \<open>delete *h; *h = NULL;\<close>
  under the free mutex. Deleting a null pointer does nothing.
\<close>

definition uhd_rx_streamer_free ::
  "globals \<Rightarrow> uhd_streamer option \<Rightarrow> (globals \<times> uhd_streamer option \<times> event list) result"
where
  "uhd_rx_streamer_free g h = UHD_SAFE_C (scoped_lock rx_streamer_free_mutex events3
     (Falls_through (g, None, [])))"

definition uhd_tx_streamer_free ::
  "globals \<Rightarrow> uhd_streamer option \<Rightarrow> (globals \<times> uhd_streamer option \<times> event list) result"
where
  "uhd_tx_streamer_free g h = UHD_SAFE_C (scoped_lock tx_streamer_free_mutex events3
     (Falls_through (g, None, [])))"

subsection \<open>Character buffers\<close>

text \<open>
  A caller's buffer is the list of the bytes that start at the pointer it passes.
  \<open>memset\<close> and \<open>strncpy\<close> write exactly \<open>n\<close> bytes: \<open>strncpy\<close> copies
  the first \<open>n\<close> characters of the source and pads with NUL only when the source is
  shorter than \<open>n\<close>. \<open>c_str\<close> is the C string a \<open>std::string\<close> hands out, as
  a C function reads it: the characters before the first NUL.
\<close>

definition NUL :: char where
  "NUL = CHR 0x00"

definition c_str :: "string \<Rightarrow> string" where
  "c_str s = takeWhile (\<lambda>c. c \<noteq> NUL) s"

definition memset :: "string \<Rightarrow> char \<Rightarrow> nat \<Rightarrow> string" where
  "memset buf c n = replicate n c @ drop n buf"

definition strncpy :: "string \<Rightarrow> string \<Rightarrow> nat \<Rightarrow> string" where
  "strncpy dest src n = take n src @ replicate (n - length src) NUL @ drop n dest"

subsection \<open>The last-error accessors\<close>

definition save_error :: "string \<Rightarrow> ('m uhd_usrp_scheme) \<Rightarrow> ('m uhd_usrp_scheme)" where
  "save_error msg h = h\<lparr>last_error := msg\<rparr>"

definition uhd_usrp_last_error :: "uhd_usrp \<Rightarrow> string \<Rightarrow> size_t \<Rightarrow> (uhd_usrp \<times> string) result" where
  "uhd_usrp_last_error h error_out strbuffer_len = UHD_SAFE_C
     (let error_out1 = memset error_out NUL (unat strbuffer_len)
      in Falls_through
           (h, strncpy error_out1 (c_str (last_error h)) (unat strbuffer_len)))"

definition uhd_tx_streamer_last_error ::
  "uhd_streamer \<Rightarrow> string \<Rightarrow> size_t \<Rightarrow> (uhd_streamer \<times> string) result"
where
  "uhd_tx_streamer_last_error h error_out strbuffer_len = UHD_SAFE_C
     (let error_out1 = memset error_out NUL (unat strbuffer_len)
      in Falls_through
           (h, strncpy error_out1 (c_str (last_error h)) (unat strbuffer_len)))"

definition uhd_rx_streamer_last_error ::
  "uhd_streamer \<Rightarrow> string \<Rightarrow> size_t \<Rightarrow> (uhd_streamer \<times> string) result"
where
  "uhd_rx_streamer_last_error h error_out strbuffer_len =
     UHD_SAFE_C_SAVE_ERROR (\<lambda>msg (h', out). (save_error msg h', out))
       (let error_out1 = memset error_out NUL (unat strbuffer_len)
        in Falls_through
             (h, strncpy error_out1 (c_str (last_error h)) (unat strbuffer_len)))"

subsection \<open>Forwarding calls on a device handle\<close>

text \<open>
  Every remaining function on a device handle is
  \<open>UHD_SAFE_C_SAVE_ERROR(h, ... USRP(h)->method(...) ...)\<close>. The native method is
  the first argument of the model; an output parameter is passed as the value it
  holds before the call and returned as the value it holds after.
\<close>

definition save_usrp_error :: "string \<Rightarrow> globals \<times> uhd_usrp \<times> 'o \<Rightarrow> globals \<times> uhd_usrp \<times> 'o" where
  "save_usrp_error msg = (\<lambda>(g, h, out). (g, save_error msg h, out))"

definition uhd_usrp_get_master_clock_rate ::
  "(sptr \<Rightarrow> size_t \<Rightarrow> fault + 'double) \<Rightarrow> globals \<Rightarrow> uhd_usrp \<Rightarrow> size_t \<Rightarrow> 'double \<Rightarrow>
   (globals \<times> uhd_usrp \<times> 'double) result"
where
  "uhd_usrp_get_master_clock_rate get_master_clock_rate g h mboard clock_rate_out =
     UHD_SAFE_C_SAVE_ERROR save_usrp_error
       (let (g1, p) = USRP g h
        in (case p of
              None \<Rightarrow> Undefined_behaviour (g1, h, clock_rate_out)
            | Some d \<Rightarrow>
                (case get_master_clock_rate d mboard of
                   Inl f \<Rightarrow> Throws f (g1, h, clock_rate_out)
                 | Inr rate \<Rightarrow> Falls_through (g1, h, rate))))"

definition uhd_usrp_set_master_clock_rate ::
  "(sptr \<Rightarrow> 'double \<Rightarrow> size_t \<Rightarrow> fault + unit) \<Rightarrow> globals \<Rightarrow> uhd_usrp \<Rightarrow> 'double \<Rightarrow> size_t \<Rightarrow>
   (globals \<times> uhd_usrp \<times> unit) result"
where
  "uhd_usrp_set_master_clock_rate set_master_clock_rate g h rate mboard =
     UHD_SAFE_C_SAVE_ERROR save_usrp_error
       (let (g1, p) = USRP g h
        in (case p of
              None \<Rightarrow> Undefined_behaviour (g1, h, ())
            | Some d \<Rightarrow>
                (case set_master_clock_rate d rate mboard of
                   Inl f \<Rightarrow> Throws f (g1, h, ())
                 | Inr _ \<Rightarrow> Falls_through (g1, h, ()))))"

definition uhd_usrp_get_pp_string ::
  "(sptr \<Rightarrow> fault + string) \<Rightarrow> globals \<Rightarrow> uhd_usrp \<Rightarrow> string \<Rightarrow> size_t \<Rightarrow>
   (globals \<times> uhd_usrp \<times> string) result"
where
  "uhd_usrp_get_pp_string get_pp_string g h pp_string_out strbuffer_len =
     UHD_SAFE_C_SAVE_ERROR save_usrp_error
       (let (g1, p) = USRP g h
        in (case p of
              None \<Rightarrow> Undefined_behaviour (g1, h, pp_string_out)
            | Some d \<Rightarrow>
                (case get_pp_string d of
                   Inl f \<Rightarrow> Throws f (g1, h, pp_string_out)
                 | Inr s \<Rightarrow>
                     Falls_through
                       (g1, h, strncpy pp_string_out (c_str s) (unat strbuffer_len)))))"

text \<open>
  The list-valued getters build one string: the loop appends each element and a
  comma, and \<open>resize(size() - 1)\<close> drops the last comma when the vector is not
  empty. The block is repeated verbatim in each of them.
\<close>

fun append_each :: "string \<Rightarrow> string list \<Rightarrow> string" where
  "append_each str [] = str"
| "append_each str (x # xs) = append_each ((str @ x) @ [CHR '',''])  xs"

definition comma_joined :: "string list \<Rightarrow> string" where
  "comma_joined v =
     (let str = append_each [] v
      in if length v > 0 then take (length str - 1) str else str)"

definition uhd_usrp_get_time_sources ::
  "(sptr \<Rightarrow> size_t \<Rightarrow> fault + string list) \<Rightarrow> globals \<Rightarrow> uhd_usrp \<Rightarrow> size_t \<Rightarrow>
   string \<Rightarrow> size_t \<Rightarrow> size_t \<Rightarrow> (globals \<times> uhd_usrp \<times> string \<times> size_t) result"
where
  "uhd_usrp_get_time_sources get_time_sources g h mboard time_sources_out strbuffer_len
       num_time_sources_out =
     UHD_SAFE_C_SAVE_ERROR save_usrp_error
       (let (g1, p) = USRP g h
        in (case p of
              None \<Rightarrow> Undefined_behaviour (g1, h, time_sources_out, num_time_sources_out)
            | Some d \<Rightarrow>
                (case get_time_sources d mboard of
                   Inl f \<Rightarrow> Throws f (g1, h, time_sources_out, num_time_sources_out)
                 | Inr time_sources \<Rightarrow>
                     (let num = of_nat (length time_sources);
                          time_sources_str = comma_joined time_sources;
                          out1 = memset time_sources_out NUL (unat strbuffer_len)
                      in Falls_through
                           (g1, h,
                            strncpy out1 (c_str time_sources_str) (unat strbuffer_len),
                            num)))))"

definition uhd_usrp_get_rx_gain_names ::
  "(sptr \<Rightarrow> size_t \<Rightarrow> fault + string list) \<Rightarrow> globals \<Rightarrow> uhd_usrp \<Rightarrow> size_t \<Rightarrow>
   string \<Rightarrow> size_t \<Rightarrow> size_t \<Rightarrow> (globals \<times> uhd_usrp \<times> string \<times> size_t) result"
where
  "uhd_usrp_get_rx_gain_names get_rx_gain_names g h chan gain_names_out strbuffer_len
       num_rx_gain_names_out =
     UHD_SAFE_C_SAVE_ERROR save_usrp_error
       (let (g1, p) = USRP g h
        in (case p of
              None \<Rightarrow> Undefined_behaviour (g1, h, gain_names_out, num_rx_gain_names_out)
            | Some d \<Rightarrow>
                (case get_rx_gain_names d chan of
                   Inl f \<Rightarrow> Throws f (g1, h, gain_names_out, num_rx_gain_names_out)
                 | Inr rx_gain_names \<Rightarrow>
                     (let num = of_nat (length rx_gain_names);
                          rx_gain_names_str = comma_joined rx_gain_names;
                          out1 = memset gain_names_out NUL (unat strbuffer_len)
                      in Falls_through
                           (g1, h,
                            strncpy out1 (c_str rx_gain_names_str) (unat strbuffer_len),
                            num)))))"

subsection \<open>Forwarding calls on a streamer handle\<close>

definition save_streamer_error ::
  "string \<Rightarrow> globals \<times> uhd_streamer \<times> 'o \<Rightarrow> globals \<times> uhd_streamer \<times> 'o"
where
  "save_streamer_error msg = (\<lambda>(g, h, out). (g, save_error msg h, out))"

definition uhd_rx_streamer_num_channels ::
  "(sptr \<Rightarrow> fault + size_t) \<Rightarrow> globals \<Rightarrow> uhd_streamer \<Rightarrow> size_t \<Rightarrow>
   (globals \<times> uhd_streamer \<times> size_t) result"
where
  "uhd_rx_streamer_num_channels get_num_channels g h num_channels_out =
     UHD_SAFE_C_SAVE_ERROR save_streamer_error
       (let (g1, p) = RX_STREAMER g h
        in (case p of
              None \<Rightarrow> Undefined_behaviour (g1, h, num_channels_out)
            | Some s \<Rightarrow>
                (case get_num_channels s of
                   Inl f \<Rightarrow> Throws f (g1, h, num_channels_out)
                 | Inr n \<Rightarrow> Falls_through (g1, h, n))))"

definition uhd_tx_streamer_num_channels ::
  "(sptr \<Rightarrow> fault + size_t) \<Rightarrow> globals \<Rightarrow> uhd_streamer \<Rightarrow> size_t \<Rightarrow>
   (globals \<times> uhd_streamer \<times> size_t) result"
where
  "uhd_tx_streamer_num_channels get_num_channels g h num_channels_out =
     UHD_SAFE_C_SAVE_ERROR save_streamer_error
       (let (g1, p) = TX_STREAMER g h
        in (case p of
              None \<Rightarrow> Undefined_behaviour (g1, h, num_channels_out)
            | Some s \<Rightarrow>
                (case get_num_channels s of
                   Inl f \<Rightarrow> Throws f (g1, h, num_channels_out)
                 | Inr n \<Rightarrow> Falls_through (g1, h, n))))"

text \<open>
  \<open>uhd_rx_streamer_recv\<close> resolves the streamer twice: once for the channel count
  that sizes \<open>buffs_cpp\<close>, once for \<open>recv\<close>. Of the outputs only \<open>*items_recvd\<close>
  is kept; the sample buffers and the metadata are the native call's business.
\<close>

definition uhd_rx_streamer_recv ::
  "(sptr \<Rightarrow> fault + size_t) \<Rightarrow> (sptr \<Rightarrow> size_t \<Rightarrow> fault + size_t) \<Rightarrow> globals \<Rightarrow>
   uhd_streamer \<Rightarrow> size_t \<Rightarrow> (globals \<times> uhd_streamer \<times> size_t) result"
where
  "uhd_rx_streamer_recv get_num_channels recv g h items_recvd =
     UHD_SAFE_C_SAVE_ERROR save_streamer_error
       (let (g1, p) = RX_STREAMER g h
        in (case p of
              None \<Rightarrow> Undefined_behaviour (g1, h, items_recvd)
            | Some s \<Rightarrow>
                (case get_num_channels s of
                   Inl f \<Rightarrow> Throws f (g1, h, items_recvd)
                 | Inr n \<Rightarrow>
                     (let (g2, p2) = RX_STREAMER g1 h
                      in (case p2 of
                            None \<Rightarrow> Undefined_behaviour (g2, h, items_recvd)
                          | Some s2 \<Rightarrow>
                              (case recv s2 n of
                                 Inl f \<Rightarrow> Throws f (g2, h, items_recvd)
                               | Inr items \<Rightarrow> Falls_through (g2, h, items)))))))"

subsection \<open>Sequences of calls\<close>

text \<open>
  A run of \<open>uhd_usrp_make\<close> calls, one per element of the list of native outcomes,
  each on a fresh handle variable that holds \<open>NULL\<close>. The result lists, per call,
  the status and what the handle variable holds afterwards.
\<close>

fun make_all ::
  "globals \<Rightarrow> (fault + sptr) list \<Rightarrow> globals \<times> (uhd_error \<times> uhd_usrp option) list"
where
  "make_all g [] = (g, [])"
| "make_all g (made # rest) =
     (case uhd_usrp_make g None made of
        Returns e (g1, h, evs) \<Rightarrow> (let (g2, hs) = make_all g1 rest in (g2, (e, h) # hs))
      | No_return (g1, h, evs) \<Rightarrow> (g1, []))"

text \<open>The indices carried by the handles that a run returned, in call order.\<close>

fun returned_indices :: "(uhd_error \<times> uhd_usrp option) list \<Rightarrow> size_t list" where
  "returned_indices [] = []"
| "returned_indices ((e, None) # rs) = returned_indices rs"
| "returned_indices ((e, Some h) # rs) = usrp_index h # returned_indices rs"

text \<open>
  One call of the interface with its arguments, and the global state it leaves.
  The functions of the file that are not listed have the shape of one that is.
\<close>

datatype 'double api_call =
    Usrp_make "uhd_usrp option" "fault + sptr"
  | Usrp_free "uhd_usrp option"
  | Usrp_get_rx_stream "sptr \<Rightarrow> fault + sptr" uhd_usrp uhd_streamer
  | Usrp_get_tx_stream "sptr \<Rightarrow> fault + sptr" uhd_usrp uhd_streamer
  | Rx_streamer_make "uhd_streamer option" size_t size_t
  | Tx_streamer_make "uhd_streamer option" size_t size_t
  | Rx_streamer_free "uhd_streamer option"
  | Tx_streamer_free "uhd_streamer option"
  | Usrp_get_master_clock_rate "sptr \<Rightarrow> size_t \<Rightarrow> fault + 'double" uhd_usrp size_t 'double
  | Usrp_set_master_clock_rate "sptr \<Rightarrow> 'double \<Rightarrow> size_t \<Rightarrow> fault + unit" uhd_usrp 'double size_t
  | Usrp_get_pp_string "sptr \<Rightarrow> fault + string" uhd_usrp string size_t
  | Usrp_get_time_sources "sptr \<Rightarrow> size_t \<Rightarrow> fault + string list" uhd_usrp size_t string size_t size_t
  | Usrp_get_rx_gain_names "sptr \<Rightarrow> size_t \<Rightarrow> fault + string list" uhd_usrp size_t string size_t size_t
  | Rx_streamer_num_channels "sptr \<Rightarrow> fault + size_t" uhd_streamer size_t
  | Tx_streamer_num_channels "sptr \<Rightarrow> fault + size_t" uhd_streamer size_t
  | Rx_streamer_recv "sptr \<Rightarrow> fault + size_t" "sptr \<Rightarrow> size_t \<Rightarrow> fault + size_t" uhd_streamer size_t

fun globals_after :: "globals \<Rightarrow> 'double api_call \<Rightarrow> globals" where
  "globals_after g (Usrp_make h made) = fst (state_of (uhd_usrp_make g h made))"
| "globals_after g (Usrp_free h) = fst (state_of (uhd_usrp_free g h))"
| "globals_after g (Usrp_get_rx_stream n h_u h_s) =
     fst (state_of (uhd_usrp_get_rx_stream n g h_u h_s))"
| "globals_after g (Usrp_get_tx_stream n h_u h_s) =
     fst (state_of (uhd_usrp_get_tx_stream n g h_u h_s))"
| "globals_after g (Rx_streamer_make h u s) = fst (state_of (uhd_rx_streamer_make g h u s))"
| "globals_after g (Tx_streamer_make h u s) = fst (state_of (uhd_tx_streamer_make g h u s))"
| "globals_after g (Rx_streamer_free h) = fst (state_of (uhd_rx_streamer_free g h))"
| "globals_after g (Tx_streamer_free h) = fst (state_of (uhd_tx_streamer_free g h))"
| "globals_after g (Usrp_get_master_clock_rate n h mboard out) =
     fst (state_of (uhd_usrp_get_master_clock_rate n g h mboard out))"
| "globals_after g (Usrp_set_master_clock_rate n h rate mboard) =
     fst (state_of (uhd_usrp_set_master_clock_rate n g h rate mboard))"
| "globals_after g (Usrp_get_pp_string n h out len) =
     fst (state_of (uhd_usrp_get_pp_string n g h out len))"
| "globals_after g (Usrp_get_time_sources n h mboard out len num) =
     fst (state_of (uhd_usrp_get_time_sources n g h mboard out len num))"
| "globals_after g (Usrp_get_rx_gain_names n h chan out len num) =
     fst (state_of (uhd_usrp_get_rx_gain_names n g h chan out len num))"
| "globals_after g (Rx_streamer_num_channels n h out) =
     fst (state_of (uhd_rx_streamer_num_channels n g h out))"
| "globals_after g (Tx_streamer_num_channels n h out) =
     fst (state_of (uhd_tx_streamer_num_channels n g h out))"
| "globals_after g (Rx_streamer_recv n r h out) =
     fst (state_of (uhd_rx_streamer_recv n r g h out))"

text \<open>
  The call that ends the life of the entry under key \<open>k\<close>: the destruction of a
  handle with index \<open>k\<close>.
\<close>

fun ends_entry :: "'double api_call \<Rightarrow> size_t \<Rightarrow> bool" where
  "ends_entry (Usrp_free (Some h)) k = (k = usrp_index h)"
| "ends_entry c k = False"

text \<open>
  A creation that succeeds while the counter stands at \<open>k\<close>: the statement
  \<open>get_usrp_ptrs()[usrp_count] = P\<close> assigns the new device to key \<open>k\<close>, whether or
  not the key has an entry.
\<close>

fun assigns_key :: "'double api_call \<Rightarrow> globals \<Rightarrow> size_t \<Rightarrow> bool" where
  "assigns_key (Usrp_make h (Inr d)) g k = (k = usrp_counter g)"
| "assigns_key c g k = False"

text \<open>
  A run of calls, one after the other, and the global state it leaves. A call that
  does not return leaves the state it had reached; the runs whose calls all return
  are among those a statement about every run covers.
\<close>

fun run_calls :: "globals \<Rightarrow> 'double api_call list \<Rightarrow> globals" where
  "run_calls g [] = g"
| "run_calls g (c # cs) = run_calls (globals_after g c) cs"

text \<open>The entry under key \<open>k\<close> is neither destroyed nor assigned anew during a run.\<close>

fun entry_lives :: "globals \<Rightarrow> 'double api_call list \<Rightarrow> size_t \<Rightarrow> bool" where
  "entry_lives g [] k = True"
| "entry_lives g (c # cs) k =
     (\<not> ends_entry c k \<and> \<not> assigns_key c g k \<and> entry_lives (globals_after g c) cs k)"

text \<open>A creation whose native construction succeeds, and one whose construction throws.\<close>

fun successful_make :: "'double api_call \<Rightarrow> bool" where
  "successful_make (Usrp_make h (Inr d)) = True"
| "successful_make c = False"

fun failed_make :: "'double api_call \<Rightarrow> bool" where
  "failed_make (Usrp_make h (Inl f)) = True"
| "failed_make c = False"

subsection \<open>Reading a list back from the buffer\<close>

text \<open>
  What a caller of a list-valued getter does with the buffer: read it as a C string
  and split it at every comma. A string without a comma is one field; the empty
  string is one empty field.
\<close>

fun split_commas :: "string \<Rightarrow> string list" where
  "split_commas [] = [[]]"
| "split_commas (c # cs) =
     (if c = CHR '','' then [] # split_commas cs
      else (case split_commas cs of
              [] \<Rightarrow> [[c]]
            | f # fs \<Rightarrow> (c # f) # fs))"

subsection \<open>Native calls under a lock\<close>

text \<open>
  Whether a trace contains a native call made while some mutex is held; \<open>held\<close>
  lists the mutexes held when the trace starts.
\<close>

fun native_while_locked :: "mutex list \<Rightarrow> event list \<Rightarrow> bool" where
  "native_while_locked held [] = False"
| "native_while_locked held (Lock m # es) = native_while_locked (m # held) es"
| "native_while_locked held (Unlock m # es) = native_while_locked (removeAll m held) es"
| "native_while_locked held (Native c # es) =
     (if held = [] then native_while_locked held es else True)"

definition make_events :: "(globals \<times> uhd_usrp option \<times> event list) result \<Rightarrow> event list" where
  "make_events r = snd (snd (state_of r))"

definition free_events :: "(globals \<times> uhd_usrp option \<times> event list) result \<Rightarrow> event list" where
  "free_events r = snd (snd (state_of r))"

definition attach_events ::
  "(globals \<times> uhd_usrp \<times> uhd_streamer \<times> event list) result \<Rightarrow> event list"
where
  "attach_events r = snd (snd (snd (state_of r)))"

subsection \<open>Example states\<close>

definition example_globals :: globals where
  "example_globals =
     \<lparr>usrp_counter = 2,
      get_usrp_ptrs = [0 \<mapsto> \<lparr>ptr = Some 10, rx_streamers = [20], tx_streamers = []\<rparr>,
                       1 \<mapsto> \<lparr>ptr = Some 11, rx_streamers = [], tx_streamers = [30, 31]\<rparr>]\<rparr>"

definition empty_globals :: globals where
  "empty_globals = \<lparr>usrp_counter = 0, get_usrp_ptrs = Map.empty\<rparr>"

definition example_usrp :: "size_t \<Rightarrow> uhd_usrp" where
  "example_usrp i = \<lparr>usrp_index = i, last_error = []\<rparr>"

definition example_streamer :: uhd_streamer where
  "example_streamer = \<lparr>usrp_index = 7, last_error = [], streamer_index = 9\<rparr>"

section \<open>Properties\<close>

subsection \<open>Auxiliary facts\<close>

lemma error_from_fault_failure:
  "error_from_fault f \<noteq> UHD_ERROR_NONE" "error_from_fault f \<noteq> UHD_ERROR_INVALID_DEVICE"
  by (cases f rule: error_from_fault.cases; simp)+

subsection \<open>Destroying a device\<close>

lemma free_present:
  "get_usrp_ptrs g (usrp_index h) = Some e \<Longrightarrow>
   uhd_usrp_free g (Some h) =
     Returns UHD_ERROR_NONE
       (g\<lparr>get_usrp_ptrs := (get_usrp_ptrs g)(usrp_index h := None)\<rparr>, None,
        [Lock usrp_free_mutex, Native ''~usrp_ptr'', Unlock usrp_free_mutex])"
  by (simp add: uhd_usrp_free_def map_count_def)

lemma free_absent:
  "get_usrp_ptrs g (usrp_index h) = None \<Longrightarrow>
   uhd_usrp_free g (Some h) =
     Returns UHD_ERROR_INVALID_DEVICE (g, Some h, [Lock usrp_free_mutex, Unlock usrp_free_mutex])"
  by (simp add: uhd_usrp_free_def map_count_def)

text \<open>
  The handle variable itself may hold \<open>NULL\<close>, as it does after a successful
  \<open>uhd_usrp_free\<close> on it. On an empty registry the presence check compares the key
  with nothing and the call is rejected; on a registry with an entry the check reads
  the key through the null pointer, and the call does not return.
\<close>

lemma free_null_empty:
  "get_usrp_ptrs g = Map.empty \<Longrightarrow>
   uhd_usrp_free g None =
     Returns UHD_ERROR_INVALID_DEVICE (g, None, [Lock usrp_free_mutex, Unlock usrp_free_mutex])"
  by (simp add: uhd_usrp_free_def)

lemma free_null_entry:
  "get_usrp_ptrs g k = Some e \<Longrightarrow>
   uhd_usrp_free g None = No_return (g, None, [Lock usrp_free_mutex])"
proof -
  assume "get_usrp_ptrs g k = Some e"
  then have "get_usrp_ptrs g \<noteq> Map.empty" by auto
  then show ?thesis by (simp add: uhd_usrp_free_def)
qed




subsection \<open>Attaching a streamer\<close>

lemma vector_index_last:
  "length v < 2 ^ 64 \<Longrightarrow> vector_index (v @ [s]) (of_nat (length v)) = Some s"
  by (simp add: vector_index_def unat_of_nat)

lemma unat_of_nat_length:
  "length (v :: sptr list) < 2 ^ 64 \<Longrightarrow> unat (of_nat (length v) :: size_t) = length v"
  by (simp add: unat_of_nat)

lemma rx_attach_absent:
  "get_usrp_ptrs g (usrp_index h_u) = None \<Longrightarrow>
   uhd_usrp_get_rx_stream n g h_u h_s =
     Returns UHD_ERROR_INVALID_DEVICE
       (g, h_u, h_s, [Lock usrp_get_rx_stream_mutex, Unlock usrp_get_rx_stream_mutex])"
  by (simp add: uhd_usrp_get_rx_stream_def map_count_def)

lemma rx_attach_null:
  "get_usrp_ptrs g (usrp_index h_u) = Some e \<Longrightarrow> ptr e = None \<Longrightarrow>
   uhd_usrp_get_rx_stream n g h_u h_s = No_return (g, h_u, h_s, [Lock usrp_get_rx_stream_mutex])"
  by (simp add: uhd_usrp_get_rx_stream_def map_count_def map_index_def)

lemma rx_attach_fault:
  "get_usrp_ptrs g (usrp_index h_u) = Some e \<Longrightarrow> ptr e = Some d \<Longrightarrow> n d = Inl f \<Longrightarrow>
   uhd_usrp_get_rx_stream n g h_u h_s =
     Returns (error_from_fault f)
       (g, h_u, h_s,
        [Lock usrp_get_rx_stream_mutex, Native ''get_rx_stream'', Unlock usrp_get_rx_stream_mutex])"
  by (simp add: uhd_usrp_get_rx_stream_def map_count_def map_index_def)

lemma rx_attach_ok:
  "get_usrp_ptrs g (usrp_index h_u) = Some e \<Longrightarrow> ptr e = Some d \<Longrightarrow> n d = Inr s \<Longrightarrow>
   uhd_usrp_get_rx_stream n g h_u h_s =
     Returns UHD_ERROR_NONE
       (g\<lparr>get_usrp_ptrs :=
            (get_usrp_ptrs g)(usrp_index h_u \<mapsto> e\<lparr>rx_streamers := rx_streamers e @ [s]\<rparr>)\<rparr>,
        h_u,
        h_s\<lparr>usrp_index := usrp_index h_u, streamer_index := of_nat (length (rx_streamers e))\<rparr>,
        [Lock usrp_get_rx_stream_mutex, Native ''get_rx_stream'', Unlock usrp_get_rx_stream_mutex])"
  by (simp add: uhd_usrp_get_rx_stream_def map_count_def map_index_def)

lemma rx_attach_success_only:
  assumes "uhd_usrp_get_rx_stream n g h_u h_s = Returns UHD_ERROR_NONE x"
  shows "\<exists>e d s. get_usrp_ptrs g (usrp_index h_u) = Some e \<and> ptr e = Some d \<and> n d = Inr s"
proof (cases "get_usrp_ptrs g (usrp_index h_u)")
  case None
  with assms show ?thesis by (simp add: rx_attach_absent)
next
  case (Some e)
  show ?thesis
  proof (cases "ptr e")
    case None
    with Some assms show ?thesis by (simp add: rx_attach_null)
  next
    case d: (Some d)
    show ?thesis
    proof (cases "n d")
      case (Inl f)
      with Some d assms show ?thesis
        by (simp add: rx_attach_fault error_from_fault_failure)
    next
      case (Inr s)
      with Some d show ?thesis by simp
    qed
  qed
qed

lemma rx_resolve:
  assumes "length (rx_streamers e) < 2 ^ 64"
  shows "RX_STREAMER
           (g\<lparr>get_usrp_ptrs := (get_usrp_ptrs g)(i \<mapsto> e\<lparr>rx_streamers := rx_streamers e @ [s]\<rparr>)\<rparr>)
           (h_s\<lparr>usrp_index := i, streamer_index := of_nat (length (rx_streamers e))\<rparr>)
         = (g\<lparr>get_usrp_ptrs := (get_usrp_ptrs g)(i \<mapsto> e\<lparr>rx_streamers := rx_streamers e @ [s]\<rparr>)\<rparr>,
            Some s)"
  using assms by (simp add: RX_STREAMER_def map_index_def vector_index_last)

lemma rx_attach_spec:
  assumes "uhd_usrp_get_rx_stream n g h_u h_s = Returns UHD_ERROR_NONE (g', h_u', h_s', evs)"
    and "get_usrp_ptrs g (usrp_index h_u) = Some e"
    and "length (rx_streamers e) < 2 ^ 64"
  shows "usrp_index h_s' = usrp_index h_u \<and>
         unat (streamer_index h_s') = length (rx_streamers e) \<and>
         last_error h_s' = last_error h_s \<and>
         (\<exists>d s. ptr e = Some d \<and> n d = Inr s \<and>
                get_usrp_ptrs g' (usrp_index h_u) = Some (e\<lparr>rx_streamers := rx_streamers e @ [s]\<rparr>) \<and>
                RX_STREAMER g' h_s' = (g', Some s))"
proof -
  from rx_attach_success_only [OF assms(1)] assms(2)
  obtain d s where ds: "ptr e = Some d" "n d = Inr s" by auto
  from rx_attach_ok [where n = n and h_s = h_s, OF assms(2) ds] assms(1)
  have g': "g' = g\<lparr>get_usrp_ptrs :=
            (get_usrp_ptrs g)(usrp_index h_u \<mapsto> e\<lparr>rx_streamers := rx_streamers e @ [s]\<rparr>)\<rparr>"
    and h': "h_s' = h_s\<lparr>usrp_index := usrp_index h_u, streamer_index := of_nat (length (rx_streamers e))\<rparr>"
    by simp_all
  have "RX_STREAMER g' h_s' = (g', Some s)"
    unfolding g' h' by (rule rx_resolve [OF assms(3)])
  moreover have "unat (streamer_index h_s') = length (rx_streamers e)"
    using assms(3) by (simp add: h' unat_of_nat_length)
  ultimately show ?thesis using ds by (simp add: g' h')
qed

lemma tx_attach_absent:
  "get_usrp_ptrs g (usrp_index h_u) = None \<Longrightarrow>
   uhd_usrp_get_tx_stream n g h_u h_s =
     Returns UHD_ERROR_INVALID_DEVICE
       (g, h_u, h_s, [Lock usrp_get_tx_stream_mutex, Unlock usrp_get_tx_stream_mutex])"
  by (simp add: uhd_usrp_get_tx_stream_def map_count_def)

lemma tx_attach_null:
  "get_usrp_ptrs g (usrp_index h_u) = Some e \<Longrightarrow> ptr e = None \<Longrightarrow>
   uhd_usrp_get_tx_stream n g h_u h_s = No_return (g, h_u, h_s, [Lock usrp_get_tx_stream_mutex])"
  by (simp add: uhd_usrp_get_tx_stream_def map_count_def map_index_def)

lemma tx_attach_fault:
  "get_usrp_ptrs g (usrp_index h_u) = Some e \<Longrightarrow> ptr e = Some d \<Longrightarrow> n d = Inl f \<Longrightarrow>
   uhd_usrp_get_tx_stream n g h_u h_s =
     Returns (error_from_fault f)
       (g, h_u, h_s,
        [Lock usrp_get_tx_stream_mutex, Native ''get_tx_stream'', Unlock usrp_get_tx_stream_mutex])"
  by (simp add: uhd_usrp_get_tx_stream_def map_count_def map_index_def)

lemma tx_attach_ok:
  "get_usrp_ptrs g (usrp_index h_u) = Some e \<Longrightarrow> ptr e = Some d \<Longrightarrow> n d = Inr s \<Longrightarrow>
   uhd_usrp_get_tx_stream n g h_u h_s =
     Returns UHD_ERROR_NONE
       (g\<lparr>get_usrp_ptrs :=
            (get_usrp_ptrs g)(usrp_index h_u \<mapsto> e\<lparr>tx_streamers := tx_streamers e @ [s]\<rparr>)\<rparr>,
        h_u,
        h_s\<lparr>usrp_index := usrp_index h_u, streamer_index := of_nat (length (tx_streamers e))\<rparr>,
        [Lock usrp_get_tx_stream_mutex, Native ''get_tx_stream'', Unlock usrp_get_tx_stream_mutex])"
  by (simp add: uhd_usrp_get_tx_stream_def map_count_def map_index_def)

lemma tx_attach_success_only:
  assumes "uhd_usrp_get_tx_stream n g h_u h_s = Returns UHD_ERROR_NONE x"
  shows "\<exists>e d s. get_usrp_ptrs g (usrp_index h_u) = Some e \<and> ptr e = Some d \<and> n d = Inr s"
proof (cases "get_usrp_ptrs g (usrp_index h_u)")
  case None
  with assms show ?thesis by (simp add: tx_attach_absent)
next
  case (Some e)
  show ?thesis
  proof (cases "ptr e")
    case None
    with Some assms show ?thesis by (simp add: tx_attach_null)
  next
    case d: (Some d)
    show ?thesis
    proof (cases "n d")
      case (Inl f)
      with Some d assms show ?thesis
        by (simp add: tx_attach_fault error_from_fault_failure)
    next
      case (Inr s)
      with Some d show ?thesis by simp
    qed
  qed
qed

lemma tx_resolve:
  assumes "length (tx_streamers e) < 2 ^ 64"
  shows "TX_STREAMER
           (g\<lparr>get_usrp_ptrs := (get_usrp_ptrs g)(i \<mapsto> e\<lparr>tx_streamers := tx_streamers e @ [s]\<rparr>)\<rparr>)
           (h_s\<lparr>usrp_index := i, streamer_index := of_nat (length (tx_streamers e))\<rparr>)
         = (g\<lparr>get_usrp_ptrs := (get_usrp_ptrs g)(i \<mapsto> e\<lparr>tx_streamers := tx_streamers e @ [s]\<rparr>)\<rparr>,
            Some s)"
  using assms by (simp add: TX_STREAMER_def map_index_def vector_index_last)

lemma tx_attach_spec:
  assumes "uhd_usrp_get_tx_stream n g h_u h_s = Returns UHD_ERROR_NONE (g', h_u', h_s', evs)"
    and "get_usrp_ptrs g (usrp_index h_u) = Some e"
    and "length (tx_streamers e) < 2 ^ 64"
  shows "usrp_index h_s' = usrp_index h_u \<and>
         unat (streamer_index h_s') = length (tx_streamers e) \<and>
         last_error h_s' = last_error h_s \<and>
         (\<exists>d s. ptr e = Some d \<and> n d = Inr s \<and>
                get_usrp_ptrs g' (usrp_index h_u) = Some (e\<lparr>tx_streamers := tx_streamers e @ [s]\<rparr>) \<and>
                TX_STREAMER g' h_s' = (g', Some s))"
proof -
  from tx_attach_success_only [OF assms(1)] assms(2)
  obtain d s where ds: "ptr e = Some d" "n d = Inr s" by auto
  from tx_attach_ok [where n = n and h_s = h_s, OF assms(2) ds] assms(1)
  have g': "g' = g\<lparr>get_usrp_ptrs :=
            (get_usrp_ptrs g)(usrp_index h_u \<mapsto> e\<lparr>tx_streamers := tx_streamers e @ [s]\<rparr>)\<rparr>"
    and h': "h_s' = h_s\<lparr>usrp_index := usrp_index h_u, streamer_index := of_nat (length (tx_streamers e))\<rparr>"
    by simp_all
  have "TX_STREAMER g' h_s' = (g', Some s)"
    unfolding g' h' by (rule tx_resolve [OF assms(3)])
  moreover have "unat (streamer_index h_s') = length (tx_streamers e)"
    using assms(3) by (simp add: h' unat_of_nat_length)
  ultimately show ?thesis using ds by (simp add: g' h')
qed


text \<open>
  C2. Attach, for both streamer kinds. Whenever \<open>uhd_usrp_get_rx_stream\<close>
  (\<open>uhd_usrp_get_tx_stream\<close>) returns \<open>UHD_ERROR_NONE\<close> on a device whose entry
  is \<open>e\<close>, the streamer handle carries the device's index, its
  \<open>streamer_index\<close> is the number of streamers of that kind that \<open>e\<close> held
  before the call, the native call returned a streamer \<open>s\<close> that is now the last
  element of the entry's collection, and the access macro resolves the handle to
  \<open>s\<close>. The call does succeed on a live entry whose device pointer is set and whose
  native call returns. When the device index is not a key, the call returns
  \<open>UHD_ERROR_INVALID_DEVICE\<close> and the global state and both handles are unchanged.
\<close>

theorem attach_stamps_and_resolves:
  "(uhd_usrp_get_rx_stream n g h_u h_s = Returns UHD_ERROR_NONE (g', h_u', h_s', evs) \<and>
    get_usrp_ptrs g (usrp_index h_u) = Some e \<and> length (rx_streamers e) < 2 ^ 64 \<longrightarrow>
      usrp_index h_s' = usrp_index h_u \<and>
      unat (streamer_index h_s') = length (rx_streamers e) \<and>
      last_error h_s' = last_error h_s \<and>
      (\<exists>d s. ptr e = Some d \<and> n d = Inr s \<and>
             get_usrp_ptrs g' (usrp_index h_u) =
               Some (e\<lparr>rx_streamers := rx_streamers e @ [s]\<rparr>) \<and>
             RX_STREAMER g' h_s' = (g', Some s))) \<and>
   (uhd_usrp_get_tx_stream n g h_u h_s = Returns UHD_ERROR_NONE (g', h_u', h_s', evs) \<and>
    get_usrp_ptrs g (usrp_index h_u) = Some e \<and> length (tx_streamers e) < 2 ^ 64 \<longrightarrow>
      usrp_index h_s' = usrp_index h_u \<and>
      unat (streamer_index h_s') = length (tx_streamers e) \<and>
      last_error h_s' = last_error h_s \<and>
      (\<exists>d s. ptr e = Some d \<and> n d = Inr s \<and>
             get_usrp_ptrs g' (usrp_index h_u) =
               Some (e\<lparr>tx_streamers := tx_streamers e @ [s]\<rparr>) \<and>
             TX_STREAMER g' h_s' = (g', Some s))) \<and>
   (get_usrp_ptrs g (usrp_index h_u) = Some e \<and> ptr e = Some d \<and> n d = Inr s \<longrightarrow>
      (\<exists>x. uhd_usrp_get_rx_stream n g h_u h_s = Returns UHD_ERROR_NONE x) \<and>
      (\<exists>x. uhd_usrp_get_tx_stream n g h_u h_s = Returns UHD_ERROR_NONE x)) \<and>
   (get_usrp_ptrs g (usrp_index h_u) = None \<longrightarrow>
      uhd_usrp_get_rx_stream n g h_u h_s =
        Returns UHD_ERROR_INVALID_DEVICE
          (g, h_u, h_s, [Lock usrp_get_rx_stream_mutex, Unlock usrp_get_rx_stream_mutex]) \<and>
      uhd_usrp_get_tx_stream n g h_u h_s =
        Returns UHD_ERROR_INVALID_DEVICE
          (g, h_u, h_s, [Lock usrp_get_tx_stream_mutex, Unlock usrp_get_tx_stream_mutex]))"
proof (intro conjI impI)
  assume "uhd_usrp_get_rx_stream n g h_u h_s = Returns UHD_ERROR_NONE (g', h_u', h_s', evs) \<and>
    get_usrp_ptrs g (usrp_index h_u) = Some e \<and> length (rx_streamers e) < 2 ^ 64"
  then have "usrp_index h_s' = usrp_index h_u \<and>
      unat (streamer_index h_s') = length (rx_streamers e) \<and>
      last_error h_s' = last_error h_s \<and>
      (\<exists>d s. ptr e = Some d \<and> n d = Inr s \<and>
             get_usrp_ptrs g' (usrp_index h_u) =
               Some (e\<lparr>rx_streamers := rx_streamers e @ [s]\<rparr>) \<and>
             RX_STREAMER g' h_s' = (g', Some s))"
    using rx_attach_spec by blast
  then show "usrp_index h_s' = usrp_index h_u"
    and "unat (streamer_index h_s') = length (rx_streamers e)"
    and "last_error h_s' = last_error h_s"
    and "\<exists>d s. ptr e = Some d \<and> n d = Inr s \<and>
             get_usrp_ptrs g' (usrp_index h_u) =
               Some (e\<lparr>rx_streamers := rx_streamers e @ [s]\<rparr>) \<and>
             RX_STREAMER g' h_s' = (g', Some s)"
    by blast+
next
  assume "uhd_usrp_get_tx_stream n g h_u h_s = Returns UHD_ERROR_NONE (g', h_u', h_s', evs) \<and>
    get_usrp_ptrs g (usrp_index h_u) = Some e \<and> length (tx_streamers e) < 2 ^ 64"
  then have "usrp_index h_s' = usrp_index h_u \<and>
      unat (streamer_index h_s') = length (tx_streamers e) \<and>
      last_error h_s' = last_error h_s \<and>
      (\<exists>d s. ptr e = Some d \<and> n d = Inr s \<and>
             get_usrp_ptrs g' (usrp_index h_u) =
               Some (e\<lparr>tx_streamers := tx_streamers e @ [s]\<rparr>) \<and>
             TX_STREAMER g' h_s' = (g', Some s))"
    using tx_attach_spec by blast
  then show "usrp_index h_s' = usrp_index h_u"
    and "unat (streamer_index h_s') = length (tx_streamers e)"
    and "last_error h_s' = last_error h_s"
    and "\<exists>d s. ptr e = Some d \<and> n d = Inr s \<and>
             get_usrp_ptrs g' (usrp_index h_u) =
               Some (e\<lparr>tx_streamers := tx_streamers e @ [s]\<rparr>) \<and>
             TX_STREAMER g' h_s' = (g', Some s)"
    by blast+
next
  assume a: "get_usrp_ptrs g (usrp_index h_u) = Some e \<and> ptr e = Some d \<and> n d = Inr s"
  show "\<exists>x. uhd_usrp_get_rx_stream n g h_u h_s = Returns UHD_ERROR_NONE x"
    using a rx_attach_ok [where n = n and h_s = h_s] by blast
  show "\<exists>x. uhd_usrp_get_tx_stream n g h_u h_s = Returns UHD_ERROR_NONE x"
    using a tx_attach_ok [where n = n and h_s = h_s] by blast
next
  assume a: "get_usrp_ptrs g (usrp_index h_u) = None"
  show "uhd_usrp_get_rx_stream n g h_u h_s =
        Returns UHD_ERROR_INVALID_DEVICE
          (g, h_u, h_s, [Lock usrp_get_rx_stream_mutex, Unlock usrp_get_rx_stream_mutex])"
    using a by (rule rx_attach_absent)
  show "uhd_usrp_get_tx_stream n g h_u h_s =
        Returns UHD_ERROR_INVALID_DEVICE
          (g, h_u, h_s, [Lock usrp_get_tx_stream_mutex, Unlock usrp_get_tx_stream_mutex])"
    using a by (rule tx_attach_absent)
qed


theorem attach_stamps_and_resolves_witness:
  "(\<exists>g' h_s' evs.
      uhd_usrp_get_rx_stream (\<lambda>d. Inr 21) example_globals (example_usrp 0) example_streamer =
        Returns UHD_ERROR_NONE (g', example_usrp 0, h_s', evs) \<and>
      usrp_index h_s' = 0 \<and> unat (streamer_index h_s') = 1 \<and>
      RX_STREAMER g' h_s' = (g', Some 21)) \<and>
   (\<exists>g' h_s' evs.
      uhd_usrp_get_tx_stream (\<lambda>d. Inr 32) example_globals (example_usrp 1) example_streamer =
        Returns UHD_ERROR_NONE (g', example_usrp 1, h_s', evs) \<and>
      usrp_index h_s' = 1 \<and> unat (streamer_index h_s') = 2 \<and>
      TX_STREAMER g' h_s' = (g', Some 32)) \<and>
   get_usrp_ptrs example_globals (usrp_index (example_usrp 5)) = None \<and>
   uhd_usrp_get_rx_stream (\<lambda>d. Inr 21) example_globals (example_usrp 5) example_streamer =
     Returns UHD_ERROR_INVALID_DEVICE
       (example_globals, example_usrp 5, example_streamer,
        [Lock usrp_get_rx_stream_mutex, Unlock usrp_get_rx_stream_mutex])"
proof -
  let ?e0 = "\<lparr>ptr = Some 10, rx_streamers = [20], tx_streamers = []\<rparr>"
  let ?e1 = "\<lparr>ptr = Some 11, rx_streamers = [], tx_streamers = [30, 31]\<rparr>"
  have e0: "get_usrp_ptrs example_globals (usrp_index (example_usrp 0)) = Some ?e0"
    and e1: "get_usrp_ptrs example_globals (usrp_index (example_usrp 1)) = Some ?e1"
    and e5: "get_usrp_ptrs example_globals (usrp_index (example_usrp 5)) = None"
    by (simp_all add: example_globals_def example_usrp_def)
  have i: "usrp_index (example_usrp 0) = 0" "usrp_index (example_usrp 1) = 1"
    by (simp_all add: example_usrp_def)
  obtain g1 h1 ev1 where r1:
    "uhd_usrp_get_rx_stream (\<lambda>d. Inr 21) example_globals (example_usrp 0) example_streamer =
       Returns UHD_ERROR_NONE (g1, example_usrp 0, h1, ev1)"
    using rx_attach_ok [where n = "\<lambda>d. Inr 21" and h_s = example_streamer, OF e0] by simp
  obtain g2 h2 ev2 where r2:
    "uhd_usrp_get_tx_stream (\<lambda>d. Inr 32) example_globals (example_usrp 1) example_streamer =
       Returns UHD_ERROR_NONE (g2, example_usrp 1, h2, ev2)"
    using tx_attach_ok [where n = "\<lambda>d. Inr 32" and h_s = example_streamer, OF e1] by simp
  have rx: "usrp_index h1 = 0 \<and> unat (streamer_index h1) = 1 \<and> RX_STREAMER g1 h1 = (g1, Some 21)"
    using attach_stamps_and_resolves
      [where n = "\<lambda>d. Inr 21" and g = example_globals and h_u = "example_usrp 0"
         and h_s = example_streamer and g' = g1 and h_u' = "example_usrp 0" and h_s' = h1
         and evs = ev1 and e = ?e0]
      r1 e0 i
    by simp
  have tx: "usrp_index h2 = 1 \<and> unat (streamer_index h2) = 2 \<and> TX_STREAMER g2 h2 = (g2, Some 32)"
    using attach_stamps_and_resolves
      [where n = "\<lambda>d. Inr 32" and g = example_globals and h_u = "example_usrp 1"
         and h_s = example_streamer and g' = g2 and h_u' = "example_usrp 1" and h_s' = h2
         and evs = ev2 and e = ?e1]
      r2 e1 i
    by simp
  have inv: "uhd_usrp_get_rx_stream (\<lambda>d. Inr 21) example_globals (example_usrp 5) example_streamer =
     Returns UHD_ERROR_INVALID_DEVICE
       (example_globals, example_usrp 5, example_streamer,
        [Lock usrp_get_rx_stream_mutex, Unlock usrp_get_rx_stream_mutex])"
    using attach_stamps_and_resolves
      [where n = "\<lambda>d. Inr 21" and g = example_globals and h_u = "example_usrp 5"
         and h_s = example_streamer]
      e5
    by blast
  from r1 rx r2 tx inv e5 show ?thesis by blast
qed

subsection \<open>Handles whose index is not a key\<close>

lemma USRP_absent:
  "get_usrp_ptrs g (usrp_index h) = None \<Longrightarrow>
   USRP g h = (g\<lparr>get_usrp_ptrs := (get_usrp_ptrs g)(usrp_index h \<mapsto> default_usrp_ptr)\<rparr>, None)"
  by (simp add: USRP_def map_index_def default_usrp_ptr_def)

lemma USRP_present:
  "get_usrp_ptrs g (usrp_index h) = Some e \<Longrightarrow> USRP g h = (g, ptr e)"
  by (simp add: USRP_def map_index_def)

lemma RX_STREAMER_absent:
  "get_usrp_ptrs g (usrp_index h) = None \<Longrightarrow>
   RX_STREAMER g h =
     (g\<lparr>get_usrp_ptrs := (get_usrp_ptrs g)(usrp_index h \<mapsto> default_usrp_ptr)\<rparr>, None)"
  by (simp add: RX_STREAMER_def map_index_def default_usrp_ptr_def vector_index_def)

lemma RX_STREAMER_present:
  "get_usrp_ptrs g (usrp_index h) = Some e \<Longrightarrow>
   RX_STREAMER g h = (g, vector_index (rx_streamers e) (streamer_index h))"
  by (simp add: RX_STREAMER_def map_index_def)

lemma TX_STREAMER_absent:
  "get_usrp_ptrs g (usrp_index h) = None \<Longrightarrow>
   TX_STREAMER g h =
     (g\<lparr>get_usrp_ptrs := (get_usrp_ptrs g)(usrp_index h \<mapsto> default_usrp_ptr)\<rparr>, None)"
  by (simp add: TX_STREAMER_def map_index_def default_usrp_ptr_def vector_index_def)

lemma TX_STREAMER_present:
  "get_usrp_ptrs g (usrp_index h) = Some e \<Longrightarrow>
   TX_STREAMER g h = (g, vector_index (tx_streamers e) (streamer_index h))"
  by (simp add: TX_STREAMER_def map_index_def)

text \<open>
  On any state and any device handle whose index is not a key, the clock-rate getter
  does not return: \<open>USRP(h)\<close> inserts a default entry under the index and the null
  device pointer of that entry is dereferenced.
\<close>

lemma get_master_clock_rate_absent:
  "get_usrp_ptrs g (usrp_index h) = None \<Longrightarrow>
   uhd_usrp_get_master_clock_rate n g h mboard out =
     No_return
       (g\<lparr>get_usrp_ptrs := (get_usrp_ptrs g)(usrp_index h \<mapsto> default_usrp_ptr)\<rparr>, h, out)"
  by (simp add: uhd_usrp_get_master_clock_rate_def USRP_absent)

lemma rx_streamer_num_channels_absent:
  "get_usrp_ptrs g (usrp_index h) = None \<Longrightarrow>
   uhd_rx_streamer_num_channels n g h out =
     No_return
       (g\<lparr>get_usrp_ptrs := (get_usrp_ptrs g)(usrp_index h \<mapsto> default_usrp_ptr)\<rparr>, h, out)"
  by (simp add: uhd_rx_streamer_num_channels_def RX_STREAMER_absent)

text \<open>
  C1, at a failing input. A device is created (index 0), a receive streamer is
  attached to it (offset 0), and the device is destroyed, which erases entry 0. The
  streamer handle is still allocated and still carries index 0. A call of
  \<open>uhd_rx_streamer_num_channels\<close> on it does not return
  \<open>UHD_ERROR_INVALID_DEVICE\<close>: \<open>RX_STREAMER(h)\<close> inserts a default-constructed
  entry under key 0 and indexes its empty streamer vector, which is undefined. A call
  on a device handle with the erased index does the same through \<open>USRP(h)\<close> and
  dereferences the null device pointer of the new entry.
\<close>

theorem stale_handle_inserts_default_entry:
  "uhd_usrp_make empty_globals None (Inr 10) =
     Returns UHD_ERROR_NONE
       (\<lparr>usrp_counter = 1,
         get_usrp_ptrs = [0 \<mapsto> \<lparr>ptr = Some 10, rx_streamers = [], tx_streamers = []\<rparr>]\<rparr>,
        Some (example_usrp 0),
        [Lock usrp_make_mutex, Native ''multi_usrp::make'', Unlock usrp_make_mutex]) \<and>
   uhd_usrp_get_rx_stream (\<lambda>d. Inr 20)
       \<lparr>usrp_counter = 1,
        get_usrp_ptrs = [0 \<mapsto> \<lparr>ptr = Some 10, rx_streamers = [], tx_streamers = []\<rparr>]\<rparr>
       (example_usrp 0) example_streamer =
     Returns UHD_ERROR_NONE
       (\<lparr>usrp_counter = 1,
         get_usrp_ptrs = [0 \<mapsto> \<lparr>ptr = Some 10, rx_streamers = [20], tx_streamers = []\<rparr>]\<rparr>,
        example_usrp 0,
        \<lparr>usrp_index = 0, last_error = [], streamer_index = 0\<rparr>,
        [Lock usrp_get_rx_stream_mutex, Native ''get_rx_stream'',
         Unlock usrp_get_rx_stream_mutex]) \<and>
   uhd_usrp_free
       \<lparr>usrp_counter = 1,
        get_usrp_ptrs = [0 \<mapsto> \<lparr>ptr = Some 10, rx_streamers = [20], tx_streamers = []\<rparr>]\<rparr>
       (Some (example_usrp 0)) =
     Returns UHD_ERROR_NONE
       (\<lparr>usrp_counter = 1, get_usrp_ptrs = Map.empty\<rparr>, None,
        [Lock usrp_free_mutex, Native ''~usrp_ptr'', Unlock usrp_free_mutex]) \<and>
   uhd_rx_streamer_num_channels (\<lambda>s. Inr 1) \<lparr>usrp_counter = 1, get_usrp_ptrs = Map.empty\<rparr>
       \<lparr>usrp_index = 0, last_error = [], streamer_index = 0\<rparr> 0 =
     No_return
       (\<lparr>usrp_counter = 1, get_usrp_ptrs = [0 \<mapsto> default_usrp_ptr]\<rparr>,
        \<lparr>usrp_index = 0, last_error = [], streamer_index = 0\<rparr>, 0) \<and>
   uhd_usrp_get_master_clock_rate (\<lambda>d m. Inr (100 :: nat))
       \<lparr>usrp_counter = 1, get_usrp_ptrs = Map.empty\<rparr> (example_usrp 0) 0 0 =
     No_return
       (\<lparr>usrp_counter = 1, get_usrp_ptrs = [0 \<mapsto> default_usrp_ptr]\<rparr>, example_usrp 0, 0)"
proof (intro conjI)
  show "uhd_usrp_make empty_globals None (Inr 10) =
     Returns UHD_ERROR_NONE
       (\<lparr>usrp_counter = 1,
         get_usrp_ptrs = [0 \<mapsto> \<lparr>ptr = Some 10, rx_streamers = [], tx_streamers = []\<rparr>]\<rparr>,
        Some (example_usrp 0),
        [Lock usrp_make_mutex, Native ''multi_usrp::make'', Unlock usrp_make_mutex])"
    by (simp add: uhd_usrp_make_def Let_def empty_globals_def example_usrp_def)
  show "uhd_usrp_get_rx_stream (\<lambda>d. Inr 20)
       \<lparr>usrp_counter = 1,
        get_usrp_ptrs = [0 \<mapsto> \<lparr>ptr = Some 10, rx_streamers = [], tx_streamers = []\<rparr>]\<rparr>
       (example_usrp 0) example_streamer =
     Returns UHD_ERROR_NONE
       (\<lparr>usrp_counter = 1,
         get_usrp_ptrs = [0 \<mapsto> \<lparr>ptr = Some 10, rx_streamers = [20], tx_streamers = []\<rparr>]\<rparr>,
        example_usrp 0,
        \<lparr>usrp_index = 0, last_error = [], streamer_index = 0\<rparr>,
        [Lock usrp_get_rx_stream_mutex, Native ''get_rx_stream'',
         Unlock usrp_get_rx_stream_mutex])"
    by (simp add: uhd_usrp_get_rx_stream_def map_count_def map_index_def example_usrp_def
        example_streamer_def)
  show "uhd_usrp_free
       \<lparr>usrp_counter = 1,
        get_usrp_ptrs = [0 \<mapsto> \<lparr>ptr = Some 10, rx_streamers = [20], tx_streamers = []\<rparr>]\<rparr>
       (Some (example_usrp 0)) =
     Returns UHD_ERROR_NONE
       (\<lparr>usrp_counter = 1, get_usrp_ptrs = Map.empty\<rparr>, None,
        [Lock usrp_free_mutex, Native ''~usrp_ptr'', Unlock usrp_free_mutex])"
    by (simp add: uhd_usrp_free_def map_count_def example_usrp_def)
  show "uhd_rx_streamer_num_channels (\<lambda>s. Inr 1) \<lparr>usrp_counter = 1, get_usrp_ptrs = Map.empty\<rparr>
       \<lparr>usrp_index = 0, last_error = [], streamer_index = 0\<rparr> 0 =
     No_return
       (\<lparr>usrp_counter = 1, get_usrp_ptrs = [0 \<mapsto> default_usrp_ptr]\<rparr>,
        \<lparr>usrp_index = 0, last_error = [], streamer_index = 0\<rparr>, 0)"
    by (simp add: rx_streamer_num_channels_absent)
  show "uhd_usrp_get_master_clock_rate (\<lambda>d m. Inr (100 :: nat))
       \<lparr>usrp_counter = 1, get_usrp_ptrs = Map.empty\<rparr> (example_usrp 0) 0 0 =
     No_return
       (\<lparr>usrp_counter = 1, get_usrp_ptrs = [0 \<mapsto> default_usrp_ptr]\<rparr>, example_usrp 0, 0)"
    by (simp add: get_master_clock_rate_absent example_usrp_def)
qed

subsection \<open>String outputs\<close>

lemma length_memset: "n \<le> length buf \<Longrightarrow> length (memset buf c n) = length buf"
  by (simp add: memset_def)

lemma length_strncpy: "n \<le> length dest \<Longrightarrow> length (strncpy dest src n) = length dest"
  by (simp add: strncpy_def)

lemma drop_memset: "n \<le> length buf \<Longrightarrow> drop n (memset buf c n) = drop n buf"
  by (simp add: memset_def)

lemma drop_strncpy: "n \<le> length dest \<Longrightarrow> drop n (strncpy dest src n) = drop n dest"
  by (simp add: strncpy_def)

lemma take_strncpy: "take n (strncpy dest src n) = take n src @ replicate (n - length src) NUL"
  by (simp add: strncpy_def)

text \<open>
  The copy is terminated inside the first \<open>n\<close> bytes exactly when the C string is
  shorter than \<open>n\<close>.
\<close>

lemma NUL_notin_c_str: "NUL \<notin> set (c_str s)"
  by (metis (mono_tags, lifting) c_str_def set_takeWhileD)

lemma strncpy_terminated_iff:
  "NUL \<in> set (take n (strncpy dest (c_str s) n)) \<longleftrightarrow> length (c_str s) < n"
proof -
  have "NUL \<notin> set (take n (c_str s))"
    using NUL_notin_c_str by (meson in_set_takeD)
  then show ?thesis by (auto simp: take_strncpy)
qed

text \<open>
  C3, at a failing input. The stored text is \<open>None\<close> (four characters) and the
  caller passes a buffer with \<open>strbuffer_len = 4\<close>. Both calls succeed and write
  four bytes, none of which is NUL: the string in the buffer is not terminated within
  its capacity.
\<close>

theorem string_output_not_terminated:
  "uhd_usrp_last_error \<lparr>usrp_index = 0, last_error = ''None''\<rparr> ''????'' 4 =
     Returns UHD_ERROR_NONE (\<lparr>usrp_index = 0, last_error = ''None''\<rparr>, ''None'') \<and>
   uhd_usrp_get_pp_string (\<lambda>d. Inr ''None'') example_globals (example_usrp 0) ''????'' 4 =
     Returns UHD_ERROR_NONE (example_globals, example_usrp 0, ''None'') \<and>
   NUL \<notin> set ''None''"
  by (simp add: uhd_usrp_last_error_def uhd_usrp_get_pp_string_def USRP_def map_index_def
      example_globals_def example_usrp_def memset_def strncpy_def c_str_def NUL_def)

subsection \<open>Faults of the native library\<close>

text \<open>
  A forwarding call wrapped in \<open>UHD_SAFE_C_SAVE_ERROR\<close> returns the fault's code
  and leaves the fault's text in the handle.
\<close>

lemma get_master_clock_rate_fault:
  "get_usrp_ptrs g (usrp_index h) = Some e \<Longrightarrow> ptr e = Some d \<Longrightarrow> n d mboard = Inl f \<Longrightarrow>
   uhd_usrp_get_master_clock_rate n g h mboard out =
     Returns (error_from_fault f) (g, h\<lparr>last_error := what f\<rparr>, out)"
  by (simp add: uhd_usrp_get_master_clock_rate_def USRP_present save_usrp_error_def
      save_error_def)

lemma rx_streamer_recv_fault:
  "get_usrp_ptrs g (usrp_index h) = Some e \<Longrightarrow>
   vector_index (rx_streamers e) (streamer_index h) = Some s \<Longrightarrow>
   c s = Inr k \<Longrightarrow> r s k = Inl f \<Longrightarrow>
   uhd_rx_streamer_recv c r g h out =
     Returns (error_from_fault f) (g, h\<lparr>last_error := what f\<rparr>, out)"
  by (simp add: uhd_rx_streamer_recv_def RX_STREAMER_present save_streamer_error_def
      save_error_def)

text \<open>
  C6, at a failing input. Device 0 is live and \<open>get_rx_stream\<close>
  (\<open>get_tx_stream\<close>) throws a fault with the text \<open>no such channel\<close>. The call
  returns the fault's code, and the \<open>last_error\<close> of the device handle and of the
  streamer handle are what they were (empty): the text is stored nowhere.
\<close>

theorem attach_fault_text_not_stored:
  "uhd_usrp_get_rx_stream (\<lambda>d. Inl (Fault Runtime_fault ''no such channel''))
       example_globals (example_usrp 0) example_streamer =
     Returns UHD_ERROR_RUNTIME
       (example_globals, example_usrp 0, example_streamer,
        [Lock usrp_get_rx_stream_mutex, Native ''get_rx_stream'',
         Unlock usrp_get_rx_stream_mutex]) \<and>
   uhd_usrp_get_tx_stream (\<lambda>d. Inl (Fault Runtime_fault ''no such channel''))
       example_globals (example_usrp 0) example_streamer =
     Returns UHD_ERROR_RUNTIME
       (example_globals, example_usrp 0, example_streamer,
        [Lock usrp_get_tx_stream_mutex, Native ''get_tx_stream'',
         Unlock usrp_get_tx_stream_mutex]) \<and>
   last_error (example_usrp 0) = [] \<and> last_error example_streamer = []"
  by (simp add: uhd_usrp_get_rx_stream_def uhd_usrp_get_tx_stream_def map_count_def
      map_index_def example_globals_def example_usrp_def example_streamer_def)

subsection \<open>Creating devices\<close>

lemma make_fault:
  "uhd_usrp_make g h (Inl f) =
     Returns (error_from_fault f)
       (g\<lparr>usrp_counter := usrp_counter g + 1\<rparr>, h,
        [Lock usrp_make_mutex, Native ''multi_usrp::make'', Unlock usrp_make_mutex])"
  by (simp add: uhd_usrp_make_def Let_def)

lemma make_ok:
  "uhd_usrp_make g h (Inr d) =
     Returns UHD_ERROR_NONE
       (g\<lparr>usrp_counter := usrp_counter g + 1,
          get_usrp_ptrs := (get_usrp_ptrs g)
            (usrp_counter g \<mapsto> \<lparr>ptr = Some d, rx_streamers = [], tx_streamers = []\<rparr>)\<rparr>,
        Some \<lparr>usrp_index = usrp_counter g, last_error = []\<rparr>,
        [Lock usrp_make_mutex, Native ''multi_usrp::make'', Unlock usrp_make_mutex])"
  by (simp add: uhd_usrp_make_def Let_def)

text \<open>Word arithmetic on the counter.\<close>

lemma counter_plus_neq:
  fixes c :: size_t
  assumes "0 < k" "k < 2 ^ 64"
  shows "c + of_nat k \<noteq> c"
proof -
  have "(of_nat k :: size_t) \<noteq> 0"
    using assms by (intro of_nat_neq_0) simp_all
  then show ?thesis by simp
qed

lemma unat_counter_plus:
  fixes c :: size_t
  assumes "unat c + k < 2 ^ 64"
  shows "unat (c + of_nat k) = unat c + k"
proof -
  from assms have k: "k < 2 ^ 64" by simp
  then have uk: "unat (of_nat k :: size_t) = k" by (simp add: unat_of_nat)
  with assms have "unat c + unat (of_nat k :: size_t) < 2 ^ LENGTH(64)" by simp
  then have "unat (c + of_nat k) = unat c + unat (of_nat k :: size_t)"
    by (simp only: unat_add_lem)
  with uk show ?thesis by simp
qed

text \<open>One step of a run of creations.\<close>

lemma make_all_Cons_fault:
  assumes "make_all g (Inl f # ms) = (g', res)"
  shows "\<exists>rs. res = (error_from_fault f, None) # rs \<and>
              make_all (g\<lparr>usrp_counter := usrp_counter g + 1\<rparr>) ms = (g', rs)"
  using assms by (auto simp: make_fault split: prod.splits)

lemma make_all_Cons_ok:
  assumes "make_all g (Inr d # ms) = (g', res)"
  shows "\<exists>rs. res = (UHD_ERROR_NONE, Some \<lparr>usrp_index = usrp_counter g, last_error = []\<rparr>) # rs \<and>
     make_all
           (g\<lparr>usrp_counter := usrp_counter g + 1,
              get_usrp_ptrs := (get_usrp_ptrs g)
                (usrp_counter g \<mapsto> \<lparr>ptr = Some d, rx_streamers = [], tx_streamers = []\<rparr>)\<rparr>)
           ms = (g', rs)"
  using assms by (auto simp: make_ok split: prod.splits)

lemma make_all_length: "make_all g ms = (g', res) \<Longrightarrow> length res = length ms"
proof (induction ms arbitrary: g g' res)
  case Nil
  then show ?case by simp
next
  case (Cons m ms)
  show ?case
  proof (cases m)
    case (Inl f)
    with Cons.prems have "make_all g (Inl f # ms) = (g', res)" by simp
    from make_all_Cons_fault [OF this] obtain rs where "res = (error_from_fault f, None) # rs"
      and "make_all (g\<lparr>usrp_counter := usrp_counter g + 1\<rparr>) ms = (g', rs)"
      by blast
    with Cons.IH show ?thesis by simp
  next
    case (Inr d)
    with Cons.prems have "make_all g (Inr d # ms) = (g', res)" by simp
    from make_all_Cons_ok [OF this] obtain rs where
      "res = (UHD_ERROR_NONE, Some \<lparr>usrp_index = usrp_counter g, last_error = []\<rparr>) # rs"
      and "make_all
           (g\<lparr>usrp_counter := usrp_counter g + 1,
              get_usrp_ptrs := (get_usrp_ptrs g)
                (usrp_counter g \<mapsto> \<lparr>ptr = Some d, rx_streamers = [], tx_streamers = []\<rparr>)\<rparr>)
           ms = (g', rs)"
      by blast
    with Cons.IH show ?thesis by simp
  qed
qed

text \<open>The call at position \<open>i\<close> receives the counter plus \<open>i\<close>, modulo \<open>2 ^ 64\<close>.\<close>

lemma make_all_nth:
  "make_all g ms = (g', res) \<Longrightarrow> i < length ms \<Longrightarrow>
   res ! i =
     (case ms ! i of
        Inl f \<Rightarrow> (error_from_fault f, None)
      | Inr d \<Rightarrow>
          (UHD_ERROR_NONE, Some \<lparr>usrp_index = usrp_counter g + of_nat i, last_error = []\<rparr>))"
proof (induction ms arbitrary: g g' res i)
  case Nil
  then show ?case by simp
next
  case (Cons m ms)
  show ?case
  proof (cases m)
    case (Inl f)
    with Cons.prems have "make_all g (Inl f # ms) = (g', res)" by simp
    from make_all_Cons_fault [OF this] obtain rs where rs: "res = (error_from_fault f, None) # rs"
      "make_all (g\<lparr>usrp_counter := usrp_counter g + 1\<rparr>) ms = (g', rs)"
      by blast
    show ?thesis
    proof (cases i)
      case 0
      with Inl rs show ?thesis by simp
    next
      case (Suc j)
      with Cons.prems have "j < length ms" by simp
      from Cons.IH [OF rs(2) this] Suc rs(1) show ?thesis
        by (cases "ms ! j") (simp_all add: add.assoc)
    qed
  next
    case (Inr d)
    with Cons.prems have "make_all g (Inr d # ms) = (g', res)" by simp
    from make_all_Cons_ok [OF this] obtain rs where rs:
      "res = (UHD_ERROR_NONE, Some \<lparr>usrp_index = usrp_counter g, last_error = []\<rparr>) # rs"
      "make_all
           (g\<lparr>usrp_counter := usrp_counter g + 1,
              get_usrp_ptrs := (get_usrp_ptrs g)
                (usrp_counter g \<mapsto> \<lparr>ptr = Some d, rx_streamers = [], tx_streamers = []\<rparr>)\<rparr>)
           ms = (g', rs)"
      by blast
    show ?thesis
    proof (cases i)
      case 0
      with Inr rs show ?thesis by simp
    next
      case (Suc j)
      with Cons.prems have "j < length ms" by simp
      from Cons.IH [OF rs(2) this] Suc rs(1) show ?thesis
        by (cases "ms ! j") (simp_all add: add.assoc)
    qed
  qed
qed

text \<open>Keys that no call of the run was given keep their entry.\<close>

lemma make_all_frame:
  "make_all g ms = (g', res) \<Longrightarrow> (\<And>i. i < length ms \<Longrightarrow> k \<noteq> usrp_counter g + of_nat i) \<Longrightarrow>
   get_usrp_ptrs g' k = get_usrp_ptrs g k"
proof (induction ms arbitrary: g g' res)
  case Nil
  then show ?case by simp
next
  case (Cons m ms)
  have k0: "k \<noteq> usrp_counter g"
    using Cons.prems(2) [of 0] by simp
  have kS: "k \<noteq> (usrp_counter g + 1) + of_nat i" if "i < length ms" for i
    using Cons.prems(2) [of "Suc i"] that by (simp add: add.assoc)
  show ?case
  proof (cases m)
    case (Inl f)
    with Cons.prems have "make_all g (Inl f # ms) = (g', res)" by simp
    from make_all_Cons_fault [OF this] obtain rs where rs:
      "make_all (g\<lparr>usrp_counter := usrp_counter g + 1\<rparr>) ms = (g', rs)"
      by blast
    from Cons.IH [OF rs] kS show ?thesis by simp
  next
    case (Inr d)
    with Cons.prems have "make_all g (Inr d # ms) = (g', res)" by simp
    from make_all_Cons_ok [OF this] obtain rs where rs:
      "make_all
           (g\<lparr>usrp_counter := usrp_counter g + 1,
              get_usrp_ptrs := (get_usrp_ptrs g)
                (usrp_counter g \<mapsto> \<lparr>ptr = Some d, rx_streamers = [], tx_streamers = []\<rparr>)\<rparr>)
           ms = (g', rs)"
      by blast
    from Cons.IH [OF rs] kS k0 show ?thesis by simp
  qed
qed

text \<open>
  The entry that a successful call inserted is still there at the end of the run,
  as long as the run is not longer than the counter's range.
\<close>

lemma make_all_entry:
  "make_all g ms = (g', res) \<Longrightarrow> length ms \<le> 2 ^ 64 \<Longrightarrow> i < length ms \<Longrightarrow> ms ! i = Inr d \<Longrightarrow>
   get_usrp_ptrs g' (usrp_counter g + of_nat i) =
     Some \<lparr>ptr = Some d, rx_streamers = [], tx_streamers = []\<rparr>"
proof (induction ms arbitrary: g g' res i)
  case Nil
  then show ?case by simp
next
  case (Cons m ms)
  show ?case
  proof (cases i)
    case 0
    with Cons.prems have "make_all g (Inr d # ms) = (g', res)" by simp
    from make_all_Cons_ok [OF this] obtain rs where rs:
      "make_all
           (g\<lparr>usrp_counter := usrp_counter g + 1,
              get_usrp_ptrs := (get_usrp_ptrs g)
                (usrp_counter g \<mapsto> \<lparr>ptr = Some d, rx_streamers = [], tx_streamers = []\<rparr>)\<rparr>)
           ms = (g', rs)"
      by blast
    have "usrp_counter g \<noteq> (usrp_counter g + 1) + of_nat j" if "j < length ms" for j
    proof -
      from that Cons.prems(2) have "0 < Suc j" "Suc j < 2 ^ 64" by simp_all
      from counter_plus_neq [OF this, of "usrp_counter g"] show ?thesis
        by (simp add: add.assoc)
    qed
    then have "\<And>j. j < length ms \<Longrightarrow>
        usrp_counter g \<noteq>
        usrp_counter (g\<lparr>usrp_counter := usrp_counter g + 1,
              get_usrp_ptrs := (get_usrp_ptrs g)
                (usrp_counter g \<mapsto> \<lparr>ptr = Some d, rx_streamers = [], tx_streamers = []\<rparr>)\<rparr>)
          + of_nat j"
      by simp
    from make_all_frame [OF rs this] 0 show ?thesis by simp
  next
    case (Suc j)
    with Cons.prems have j: "j < length ms" "ms ! j = Inr d" "length ms \<le> 2 ^ 64" by simp_all
    show ?thesis
    proof (cases m)
      case (Inl f)
      with Cons.prems have "make_all g (Inl f # ms) = (g', res)" by simp
      from make_all_Cons_fault [OF this] obtain rs where rs:
        "make_all (g\<lparr>usrp_counter := usrp_counter g + 1\<rparr>) ms = (g', rs)"
        by blast
      from Cons.IH [OF rs j(3) j(1) j(2)] Suc show ?thesis by (simp add: add.assoc)
    next
      case (Inr d')
      with Cons.prems have "make_all g (Inr d' # ms) = (g', res)" by simp
      from make_all_Cons_ok [OF this] obtain rs where rs:
        "make_all
           (g\<lparr>usrp_counter := usrp_counter g + 1,
              get_usrp_ptrs := (get_usrp_ptrs g)
                (usrp_counter g \<mapsto> \<lparr>ptr = Some d', rx_streamers = [], tx_streamers = []\<rparr>)\<rparr>)
           ms = (g', rs)"
        by blast
      from Cons.IH [OF rs j(3) j(1) j(2)] Suc show ?thesis by (simp add: add.assoc)
    qed
  qed
qed


text \<open>Every returned index is the counter plus the position of its call.\<close>

lemma make_all_indices:
  "make_all g ms = (g', res) \<Longrightarrow> x \<in> set (returned_indices res) \<Longrightarrow>
   \<exists>i<length ms. x = usrp_counter g + of_nat i"
proof (induction ms arbitrary: g g' res)
  case Nil
  then show ?case by simp
next
  case (Cons m ms)
  have shift: "\<exists>i<length (m # ms). x = usrp_counter g + of_nat i"
    if "\<exists>i<length ms. x = (usrp_counter g + 1) + of_nat i"
  proof -
    from that obtain i where "i < length ms" "x = (usrp_counter g + 1) + of_nat i" by blast
    then have "Suc i < length (m # ms)" "x = usrp_counter g + of_nat (Suc i)"
      by (simp_all add: add.assoc)
    then show ?thesis by blast
  qed
  show ?case
  proof (cases m)
    case (Inl f)
    with Cons.prems have "make_all g (Inl f # ms) = (g', res)" by simp
    from make_all_Cons_fault [OF this] obtain rs where rs: "res = (error_from_fault f, None) # rs"
      "make_all (g\<lparr>usrp_counter := usrp_counter g + 1\<rparr>) ms = (g', rs)"
      by blast
    with Cons.prems have "x \<in> set (returned_indices rs)" by simp
    from Cons.IH [OF rs(2) this] show ?thesis by (intro shift) simp
  next
    case (Inr d)
    with Cons.prems have "make_all g (Inr d # ms) = (g', res)" by simp
    from make_all_Cons_ok [OF this] obtain rs where rs:
      "res = (UHD_ERROR_NONE, Some \<lparr>usrp_index = usrp_counter g, last_error = []\<rparr>) # rs"
      "make_all
           (g\<lparr>usrp_counter := usrp_counter g + 1,
              get_usrp_ptrs := (get_usrp_ptrs g)
                (usrp_counter g \<mapsto> \<lparr>ptr = Some d, rx_streamers = [], tx_streamers = []\<rparr>)\<rparr>)
           ms = (g', rs)"
      by blast
    with Cons.prems have "x = usrp_counter g \<or> x \<in> set (returned_indices rs)" by auto
    then show ?thesis
    proof
      assume "x = usrp_counter g"
      then have "0 < length (m # ms)" "x = usrp_counter g + of_nat 0" by simp_all
      then show ?thesis by blast
    next
      assume "x \<in> set (returned_indices rs)"
      from Cons.IH [OF rs(2) this] show ?thesis by (intro shift) simp
    qed
  qed
qed

lemma make_all_distinct:
  "make_all g ms = (g', res) \<Longrightarrow> length ms \<le> 2 ^ 64 \<Longrightarrow> distinct (returned_indices res)"
proof (induction ms arbitrary: g g' res)
  case Nil
  then show ?case by simp
next
  case (Cons m ms)
  from Cons.prems have len: "length ms \<le> 2 ^ 64" "length ms < 2 ^ 64" by simp_all
  show ?case
  proof (cases m)
    case (Inl f)
    with Cons.prems have "make_all g (Inl f # ms) = (g', res)" by simp
    from make_all_Cons_fault [OF this] obtain rs where rs: "res = (error_from_fault f, None) # rs"
      "make_all (g\<lparr>usrp_counter := usrp_counter g + 1\<rparr>) ms = (g', rs)"
      by blast
    from Cons.IH [OF rs(2) len(1)] rs(1) show ?thesis by simp
  next
    case (Inr d)
    with Cons.prems have "make_all g (Inr d # ms) = (g', res)" by simp
    from make_all_Cons_ok [OF this] obtain rs where rs:
      "res = (UHD_ERROR_NONE, Some \<lparr>usrp_index = usrp_counter g, last_error = []\<rparr>) # rs"
      "make_all
           (g\<lparr>usrp_counter := usrp_counter g + 1,
              get_usrp_ptrs := (get_usrp_ptrs g)
                (usrp_counter g \<mapsto> \<lparr>ptr = Some d, rx_streamers = [], tx_streamers = []\<rparr>)\<rparr>)
           ms = (g', rs)"
      by blast
    have "usrp_counter g \<notin> set (returned_indices rs)"
    proof
      assume "usrp_counter g \<in> set (returned_indices rs)"
      from make_all_indices [OF rs(2) this] obtain i where i: "i < length ms"
        "usrp_counter g = (usrp_counter g + 1) + of_nat i"
        by auto
      from i(1) len(2) have "0 < Suc i" "Suc i < 2 ^ 64" by simp_all
      from counter_plus_neq [OF this, of "usrp_counter g"] i(2) show False
        by (simp add: add.assoc)
    qed
    with Cons.IH [OF rs(2) len(1)] rs(1) show ?thesis by simp
  qed
qed

lemma make_all_sorted:
  "make_all g ms = (g', res) \<Longrightarrow> unat (usrp_counter g) + length ms \<le> 2 ^ 64 \<Longrightarrow>
   sorted_wrt (<) (returned_indices res)"
proof (induction ms arbitrary: g g' res)
  case Nil
  then show ?case by simp
next
  case (Cons m ms)
  have tail: "sorted_wrt (<) (returned_indices rs)"
    if rs: "make_all g1 ms = (g', rs)" and c1: "usrp_counter g1 = usrp_counter g + 1" for g1 rs
  proof (cases ms)
    case Nil
    with rs show ?thesis by simp
  next
    case (Cons m' ms')
    with Cons.prems(2) have "unat (usrp_counter g) + 1 < 2 ^ 64" by simp
    from unat_counter_plus [OF this] have "unat (usrp_counter g + 1) = unat (usrp_counter g) + 1"
      by simp
    with Cons.prems(2) c1 have "unat (usrp_counter g1) + length ms \<le> 2 ^ 64" by simp
    from Cons.IH [OF rs this] show ?thesis .
  qed
  show ?case
  proof (cases m)
    case (Inl f)
    with Cons.prems have "make_all g (Inl f # ms) = (g', res)" by simp
    from make_all_Cons_fault [OF this] obtain rs where rs: "res = (error_from_fault f, None) # rs"
      "make_all (g\<lparr>usrp_counter := usrp_counter g + 1\<rparr>) ms = (g', rs)"
      by blast
    from tail [OF rs(2)] rs(1) show ?thesis by simp
  next
    case (Inr d)
    with Cons.prems have "make_all g (Inr d # ms) = (g', res)" by simp
    from make_all_Cons_ok [OF this] obtain rs where rs:
      "res = (UHD_ERROR_NONE, Some \<lparr>usrp_index = usrp_counter g, last_error = []\<rparr>) # rs"
      "make_all
           (g\<lparr>usrp_counter := usrp_counter g + 1,
              get_usrp_ptrs := (get_usrp_ptrs g)
                (usrp_counter g \<mapsto> \<lparr>ptr = Some d, rx_streamers = [], tx_streamers = []\<rparr>)\<rparr>)
           ms = (g', rs)"
      by blast
    have "usrp_counter g < y" if "y \<in> set (returned_indices rs)" for y
    proof -
      from make_all_indices [OF rs(2) that] obtain i where i: "i < length ms"
        "y = usrp_counter g + of_nat (Suc i)"
        by (auto simp: add.assoc)
      from i(1) Cons.prems(2) have "unat (usrp_counter g) + Suc i < 2 ^ 64" by simp
      from unat_counter_plus [OF this] i(2) have "unat y = unat (usrp_counter g) + Suc i"
        by simp
      then show ?thesis by (simp add: word_less_nat_alt)
    qed
    with tail [OF rs(2)] rs(1) show ?thesis by simp
  qed
qed


text \<open>
  C4, as amended. A run of \<open>uhd_usrp_make\<close> calls returns one status per call; a
  call whose native construction succeeds returns \<open>UHD_ERROR_NONE\<close> and a handle
  whose index is the counter at the start of the run plus the call's position, modulo
  \<open>2 ^ 64\<close>. For a run of at most \<open>2 ^ 64\<close> calls the indices of the returned
  handles are pairwise distinct and, at the end of the run, each is a key of the
  registry mapped to the device its call created. When the counter does not wrap
  around during the run, the indices are strictly increasing in call order.
\<close>

theorem make_all_indices_distinct_increasing:
  assumes "make_all g ms = (g', res)"
  shows "length res = length ms \<and>
    (\<forall>i<length ms.
       case ms ! i of
         Inl f \<Rightarrow> res ! i = (error_from_fault f, None)
       | Inr d \<Rightarrow>
           (\<exists>h. res ! i = (UHD_ERROR_NONE, Some h) \<and>
                usrp_index h = usrp_counter g + of_nat i \<and>
                (length ms \<le> 2 ^ 64 \<longrightarrow>
                   get_usrp_ptrs g' (usrp_index h) =
                     Some \<lparr>ptr = Some d, rx_streamers = [], tx_streamers = []\<rparr>))) \<and>
    (length ms \<le> 2 ^ 64 \<longrightarrow> distinct (returned_indices res)) \<and>
    (unat (usrp_counter g) + length ms \<le> 2 ^ 64 \<longrightarrow> sorted_wrt (<) (returned_indices res))"
proof (intro conjI allI impI)
  show "length res = length ms"
    using assms by (rule make_all_length)
next
  fix i
  assume i: "i < length ms"
  show "case ms ! i of
         Inl f \<Rightarrow> res ! i = (error_from_fault f, None)
       | Inr d \<Rightarrow>
           (\<exists>h. res ! i = (UHD_ERROR_NONE, Some h) \<and>
                usrp_index h = usrp_counter g + of_nat i \<and>
                (length ms \<le> 2 ^ 64 \<longrightarrow>
                   get_usrp_ptrs g' (usrp_index h) =
                     Some \<lparr>ptr = Some d, rx_streamers = [], tx_streamers = []\<rparr>))"
  proof (cases "ms ! i")
    case (Inl f)
    with make_all_nth [OF assms i] show ?thesis by simp
  next
    case (Inr d)
    with make_all_nth [OF assms i]
    have "res ! i =
      (UHD_ERROR_NONE, Some \<lparr>usrp_index = usrp_counter g + of_nat i, last_error = []\<rparr>)"
      by simp
    moreover have "length ms \<le> 2 ^ 64 \<longrightarrow>
        get_usrp_ptrs g' (usrp_counter g + of_nat i) =
          Some \<lparr>ptr = Some d, rx_streamers = [], tx_streamers = []\<rparr>"
      using make_all_entry [OF assms _ i Inr] by blast
    ultimately show ?thesis using Inr by simp
  qed
next
  assume "length ms \<le> 2 ^ 64"
  with assms show "distinct (returned_indices res)" by (rule make_all_distinct)
next
  assume "unat (usrp_counter g) + length ms \<le> 2 ^ 64"
  with assms show "sorted_wrt (<) (returned_indices res)" by (rule make_all_sorted)
qed

theorem make_all_indices_distinct_increasing_witness:
  "\<exists>g' res.
     make_all example_globals [Inr 12, Inl (Fault Runtime_fault ''no device''), Inr 13] = (g', res) \<and>
     unat (usrp_counter example_globals) + 3 \<le> 2 ^ 64 \<and>
     length res = 3 \<and>
     returned_indices res = [2, 4] \<and>
     distinct (returned_indices res) \<and>
     sorted_wrt (<) (returned_indices res) \<and>
     get_usrp_ptrs g' 2 = Some \<lparr>ptr = Some 12, rx_streamers = [], tx_streamers = []\<rparr> \<and>
     get_usrp_ptrs g' 4 = Some \<lparr>ptr = Some 13, rx_streamers = [], tx_streamers = []\<rparr>"
proof -
  let ?ms = "[Inr 12, Inl (Fault Runtime_fault ''no device''), Inr 13] :: (fault + sptr) list"
  obtain g' res where r: "make_all example_globals ?ms = (g', res)"
    by (cases "make_all example_globals ?ms") blast
  note T = make_all_indices_distinct_increasing [OF r]
  have c: "usrp_counter example_globals = 2"
    by (simp add: example_globals_def)
  have b: "unat (usrp_counter example_globals) + 3 \<le> 2 ^ 64" "length ?ms \<le> 2 ^ 64"
    by (simp_all add: c)
  from T have len: "length res = 3" by simp
  from T b have ds: "distinct (returned_indices res)" "sorted_wrt (<) (returned_indices res)"
    by simp_all
  from T have all: "\<forall>i<length ?ms.
       case ?ms ! i of
         Inl f \<Rightarrow> res ! i = (error_from_fault f, None)
       | Inr d \<Rightarrow>
           (\<exists>h. res ! i = (UHD_ERROR_NONE, Some h) \<and>
                usrp_index h = usrp_counter example_globals + of_nat i \<and>
                (length ?ms \<le> 2 ^ 64 \<longrightarrow>
                   get_usrp_ptrs g' (usrp_index h) =
                     Some \<lparr>ptr = Some d, rx_streamers = [], tx_streamers = []\<rparr>))"
    by blast
  from all [rule_format, of 0] b(2) c
  obtain h0 where h0: "res ! 0 = (UHD_ERROR_NONE, Some h0)" "usrp_index h0 = 2"
    "get_usrp_ptrs g' 2 = Some \<lparr>ptr = Some 12, rx_streamers = [], tx_streamers = []\<rparr>"
    by auto
  from all [rule_format, of 1]
  have h1: "res ! 1 = (UHD_ERROR_RUNTIME, None)"
    by simp
  from all [rule_format, of 2] b(2) c
  obtain h2 where h2: "res ! 2 = (UHD_ERROR_NONE, Some h2)" "usrp_index h2 = 4"
    "get_usrp_ptrs g' 4 = Some \<lparr>ptr = Some 13, rx_streamers = [], tx_streamers = []\<rparr>"
    by auto
  from len obtain a b c where abc: "res = [a, b, c]"
    by (cases res; simp; cases "tl res"; simp; cases "tl (tl res)"; simp)
  with h0(1) h1 h2(1) have "res = [(UHD_ERROR_NONE, Some h0), (UHD_ERROR_RUNTIME, None),
      (UHD_ERROR_NONE, Some h2)]"
    by simp
  with h0(2) h2(2) have "returned_indices res = [2, 4]" by simp
  with r b(1) len ds h0(3) h2(3) show ?thesis by blast
qed

text \<open>A run of \<open>n\<close> failing creations only moves the counter.\<close>

lemma make_all_replicate_fault:
  "make_all g (replicate n (Inl f) @ ms) =
     (case make_all (g\<lparr>usrp_counter := usrp_counter g + of_nat n\<rparr>) ms of
        (g', res) \<Rightarrow> (g', replicate n (error_from_fault f, None) @ res))"
proof (induction n arbitrary: g)
  case 0
  show ?case by simp
next
  case (Suc n)
  show ?case
    by (simp add: make_fault Suc.IH add.assoc split: prod.splits)
qed

lemma make_all_failures:
  "make_all g (replicate n (Inl f)) =
     (g\<lparr>usrp_counter := usrp_counter g + of_nat n\<rparr>, replicate n (error_from_fault f, None))"
  using make_all_replicate_fault [of g n f "[]"] by simp

lemma returned_indices_replicate_None:
  "returned_indices (replicate n (e, None) @ res) = returned_indices res"
  by (induction n) simp_all

lemma counter_after_failures:
  "empty_globals\<lparr>usrp_counter := usrp_counter empty_globals + of_nat (2 ^ 64 - 1)\<rparr> =
     \<lparr>usrp_counter = - 1, get_usrp_ptrs = Map.empty\<rparr>"
proof -
  have "(of_nat (2 ^ 64 - 1) :: size_t) = - 1"
    by simp
  then show ?thesis
    by (simp only: empty_globals_def) simp
qed

text \<open>
  The claim as stated fails when the counter wraps around. In a process that starts
  with the counter at 0 and an empty registry, \<open>2 ^ 64 - 1\<close> failed creations are
  followed by two successful ones: these return the indices \<open>2 ^ 64 - 1\<close> and
  \<open>0\<close>, which are not in increasing order.
\<close>

theorem make_all_indices_wrap_counterexample:
  "returned_indices
     (snd (make_all empty_globals
        (replicate (2 ^ 64 - 1) (Inl (Fault Runtime_fault ''no device'')) @ [Inr 10, Inr 11]))) =
     [- 1, 0] \<and>
   \<not> sorted_wrt (<) [- 1, 0 :: size_t]"
proof -
  have "returned_indices
      (snd (make_all \<lparr>usrp_counter = - 1, get_usrp_ptrs = Map.empty\<rparr> [Inr 10, Inr 11])) =
      [- 1, 0]"
    by (simp add: make_ok)
  then have "returned_indices
     (snd (make_all empty_globals
        (replicate (2 ^ 64 - 1) (Inl (Fault Runtime_fault ''no device'')) @ [Inr 10, Inr 11]))) =
     [- 1, 0]"
    by (simp only: make_all_replicate_fault counter_after_failures)
      (simp add: case_prod_beta returned_indices_replicate_None)
  then show ?thesis by simp
qed

subsection \<open>List-valued getters\<close>

lemma append_each_eq:
  "append_each str xs = str @ concat (map (\<lambda>x. x @ [CHR '','']) xs)"
  by (induction xs arbitrary: str) simp_all

lemma comma_joined_Nil: "comma_joined [] = []"
  by (simp add: comma_joined_def)

lemma comma_joined_single: "comma_joined [x] = x"
  by (simp add: comma_joined_def)

lemma comma_joined_Cons2:
  "comma_joined (x # y # ys) = x @ CHR '','' # comma_joined (y # ys)"
  by (simp add: comma_joined_def append_each_eq)

lemma length_comma_joined: "length xs \<le> Suc (length (comma_joined xs))"
proof (induction xs rule: induct_list012)
  case 1
  show ?case by simp
next
  case (2 x)
  show ?case by (simp add: comma_joined_single)
next
  case (3 x y ys)
  then show ?case by (simp add: comma_joined_Cons2)
qed

lemma comma_joined_no_NUL:
  "\<forall>x\<in>set xs. NUL \<notin> set x \<Longrightarrow> NUL \<notin> set (comma_joined xs)"
proof (induction xs rule: induct_list012)
  case 1
  show ?case by (simp add: comma_joined_Nil)
next
  case (2 x)
  then show ?case by (simp add: comma_joined_single)
next
  case (3 x y ys)
  then show ?case by (simp add: comma_joined_Cons2 NUL_def)
qed

lemma split_commas_not_Nil: "split_commas s \<noteq> []"
  by (induction s) (auto split: list.splits)

lemma split_commas_plain: "CHR '','' \<notin> set x \<Longrightarrow> split_commas x = [x]"
  by (induction x) auto

lemma split_commas_field:
  "CHR '','' \<notin> set x \<Longrightarrow> split_commas (x @ CHR '','' # rest) = x # split_commas rest"
  by (induction x) auto

lemma split_comma_joined:
  "\<forall>x\<in>set xs. CHR '','' \<notin> set x \<Longrightarrow> xs \<noteq> [] \<Longrightarrow> split_commas (comma_joined xs) = xs"
proof (induction xs rule: induct_list012)
  case 1
  then show ?case by simp
next
  case (2 x)
  then show ?case by (simp add: comma_joined_single split_commas_plain)
next
  case (3 x y ys)
  then show ?case by (simp add: comma_joined_Cons2 split_commas_field)
qed

lemma take_split_comma_joined:
  assumes "\<forall>x\<in>set xs. CHR '','' \<notin> set x"
  shows "take (length xs) (split_commas (comma_joined xs)) = xs"
proof (cases xs)
  case Nil
  then show ?thesis by simp
next
  case (Cons x ys)
  with split_comma_joined [OF assms] show ?thesis by simp
qed

lemma c_str_no_NUL: "NUL \<notin> set s \<Longrightarrow> c_str s = s"
  by (auto simp: c_str_def)

text \<open>What the caller reads back from a buffer that is larger than the string.\<close>

lemma c_str_copied:
  assumes "NUL \<notin> set s" "length s < n"
  shows "c_str (strncpy (memset buf NUL n) (c_str s) n) = s"
proof -
  from assms(2) obtain k where k: "n - length s = Suc k"
    by (cases "n - length s") simp_all
  have "strncpy (memset buf NUL n) (c_str s) n = s @ NUL # (replicate k NUL @ drop n (memset buf NUL n))"
    using assms k by (simp add: strncpy_def c_str_no_NUL)
  moreover have "c_str (s @ NUL # (replicate k NUL @ drop n (memset buf NUL n))) = s"
    using assms(1) by (auto simp: c_str_def takeWhile_tail)
  ultimately show ?thesis by simp
qed


lemma USRP_live:
  "get_usrp_ptrs g (usrp_index h) = Some e \<Longrightarrow> ptr e = Some d \<Longrightarrow> USRP g h = (g, Some d)"
  by (simp add: USRP_def map_index_def)

lemma get_rx_gain_names_ok:
  "get_usrp_ptrs g (usrp_index h) = Some e \<Longrightarrow> ptr e = Some d \<Longrightarrow> n d chan = Inr names \<Longrightarrow>
   uhd_usrp_get_rx_gain_names n g h chan buf len num_in =
     Returns UHD_ERROR_NONE
       (g, h, strncpy (memset buf NUL (unat len)) (c_str (comma_joined names)) (unat len),
        of_nat (length names))"
  by (simp add: uhd_usrp_get_rx_gain_names_def USRP_live Let_def)

lemma get_time_sources_ok:
  "get_usrp_ptrs g (usrp_index h) = Some e \<Longrightarrow> ptr e = Some d \<Longrightarrow> n d mboard = Inr names \<Longrightarrow>
   uhd_usrp_get_time_sources n g h mboard buf len num_in =
     Returns UHD_ERROR_NONE
       (g, h, strncpy (memset buf NUL (unat len)) (c_str (comma_joined names)) (unat len),
        of_nat (length names))"
  by (simp add: uhd_usrp_get_time_sources_def USRP_live Let_def)

text \<open>
  C7, as amended. On a live device whose native call returns the list \<open>names\<close>,
  with no comma and no NUL inside any element and a buffer longer than the joined
  string: \<open>uhd_usrp_get_rx_gain_names\<close> and \<open>uhd_usrp_get_time_sources\<close> return
  \<open>UHD_ERROR_NONE\<close>, the count is the number of elements, and splitting the string
  in the buffer at the commas and taking that many fields gives back \<open>names\<close>. An
  empty list gives the empty string; a single element gives a string without a comma.
\<close>

theorem list_getter_round_trip:
  assumes "get_usrp_ptrs g (usrp_index h) = Some e" and "ptr e = Some d"
    and "n d chan = Inr names"
    and "\<forall>x\<in>set names. CHR '','' \<notin> set x \<and> NUL \<notin> set x"
    and "length (comma_joined names) < unat len"
  shows "\<exists>out num.
           uhd_usrp_get_rx_gain_names n g h chan buf len num_in =
             Returns UHD_ERROR_NONE (g, h, out, num) \<and>
           uhd_usrp_get_time_sources n g h chan buf len num_in =
             Returns UHD_ERROR_NONE (g, h, out, num) \<and>
           unat num = length names \<and>
           take (unat num) (split_commas (c_str out)) = names \<and>
           (names = [] \<longrightarrow> c_str out = []) \<and>
           (length names = 1 \<longrightarrow> CHR '','' \<notin> set (c_str out))"
proof -
  let ?out = "strncpy (memset buf NUL (unat len)) (c_str (comma_joined names)) (unat len)"
  let ?num = "of_nat (length names) :: size_t"
  have "length names \<le> Suc (length (comma_joined names))"
    by (rule length_comma_joined)
  with assms(5) have "length names \<le> unat len" by simp
  then have num: "unat ?num = length names"
    by (rule le_unat_uoi)
  from assms(4) have "NUL \<notin> set (comma_joined names)"
    by (intro comma_joined_no_NUL) blast
  from c_str_copied [OF this assms(5)] have out: "c_str ?out = comma_joined names" .
  from assms(4) have nc: "\<forall>x\<in>set names. CHR '','' \<notin> set x" by blast
  have "take (unat ?num) (split_commas (c_str ?out)) = names"
    using take_split_comma_joined [OF nc] by (simp add: num out)
  moreover have "names = [] \<longrightarrow> c_str ?out = []"
  proof
    assume "names = []"
    with out show "c_str ?out = []" by (simp add: comma_joined_Nil)
  qed
  moreover have "length names = 1 \<longrightarrow> CHR '','' \<notin> set (c_str ?out)"
  proof
    assume "length names = 1"
    then obtain x where "names = [x]"
      by (cases names) simp_all
    with nc out show "CHR '','' \<notin> set (c_str ?out)"
      by (simp add: comma_joined_single)
  qed
  ultimately show ?thesis
    using get_rx_gain_names_ok [where n = n, OF assms(1-3)]
      get_time_sources_ok [where n = n, OF assms(1-3)] num
    by blast
qed

theorem list_getter_round_trip_witness:
  "\<exists>out num.
     uhd_usrp_get_rx_gain_names (\<lambda>d c. Inr [''PGA'', ''LNA'']) example_globals (example_usrp 0) 0
         ''????????????????'' 16 0 =
       Returns UHD_ERROR_NONE (example_globals, example_usrp 0, out, num) \<and>
     length (comma_joined [''PGA'', ''LNA'']) < unat (16 :: size_t) \<and>
     unat num = 2 \<and>
     take (unat num) (split_commas (c_str out)) = [''PGA'', ''LNA'']"
proof -
  have e: "get_usrp_ptrs example_globals (usrp_index (example_usrp 0)) =
      Some \<lparr>ptr = Some 10, rx_streamers = [20], tx_streamers = []\<rparr>"
    by (simp add: example_globals_def example_usrp_def)
  have p: "ptr \<lparr>ptr = Some 10, rx_streamers = [20], tx_streamers = []\<rparr> = Some 10"
    by simp
  have n: "(\<lambda>d c. Inr [''PGA'', ''LNA'']) (10 :: sptr) (0 :: size_t) =
      (Inr [''PGA'', ''LNA''] :: fault + string list)"
    by simp
  have c: "\<forall>x\<in>set [''PGA'', ''LNA'']. CHR '','' \<notin> set x \<and> NUL \<notin> set x"
    by (simp add: NUL_def)
  have l: "length (comma_joined [''PGA'', ''LNA'']) < unat (16 :: size_t)"
    by (simp add: comma_joined_Cons2 comma_joined_single)
  from list_getter_round_trip
    [where n = "\<lambda>d c. Inr [''PGA'', ''LNA'']" and chan = 0 and buf = "''????????????????''"
      and num_in = 0,
      OF e p n c l]
  show ?thesis using l by auto
qed

text \<open>
  The claim as stated fails for an element that contains a comma: the one-element
  list \<open>[''a,b'']\<close> is returned as the string \<open>a,b\<close> with count 1, and the first
  field of that string is \<open>a\<close>.
\<close>

theorem list_getter_comma_counterexample:
  "uhd_usrp_get_rx_gain_names (\<lambda>d c. Inr [''a,b'']) example_globals (example_usrp 0) 0
       ''????????'' 8 0 =
     Returns UHD_ERROR_NONE
       (example_globals, example_usrp 0, ''a,b'' @ [NUL, NUL, NUL, NUL, NUL], 1) \<and>
   take (unat (1 :: size_t)) (split_commas (c_str (''a,b'' @ [NUL, NUL, NUL, NUL, NUL]))) =
     [''a''] \<and>
   [''a''] \<noteq> [''a,b'']"
proof -
  have e: "get_usrp_ptrs example_globals (usrp_index (example_usrp 0)) =
      Some \<lparr>ptr = Some 10, rx_streamers = [20], tx_streamers = []\<rparr>"
    by (simp add: example_globals_def example_usrp_def)
  have r: "replicate 5 NUL = [NUL, NUL, NUL, NUL, NUL]"
    by (simp add: numeral_eq_Suc)
  have "uhd_usrp_get_rx_gain_names (\<lambda>d c. Inr [''a,b'']) example_globals (example_usrp 0) 0
       ''????????'' 8 0 =
     Returns UHD_ERROR_NONE
       (example_globals, example_usrp 0, ''a,b'' @ [NUL, NUL, NUL, NUL, NUL], 1)"
    using get_rx_gain_names_ok [where n = "\<lambda>d c. Inr [''a,b'']" and names = "[''a,b'']", OF e]
    by (simp add: comma_joined_single c_str_def NUL_def memset_def strncpy_def r [unfolded NUL_def])
  moreover have "take (unat (1 :: size_t))
      (split_commas (c_str (''a,b'' @ [NUL, NUL, NUL, NUL, NUL]))) = [''a'']"
    by (simp add: c_str_def NUL_def)
  ultimately show ?thesis by simp
qed

subsection \<open>What a call does to the entries of the registry\<close>

lemma map_index_keeps:
  "map_index g i = (g1, e1) \<Longrightarrow> get_usrp_ptrs g k = Some e \<Longrightarrow> get_usrp_ptrs g1 k = Some e"
  by (auto simp: map_index_def split: option.splits)

lemma USRP_keeps:
  "USRP g h = (g1, p) \<Longrightarrow> get_usrp_ptrs g k = Some e \<Longrightarrow> get_usrp_ptrs g1 k = Some e"
  by (auto simp: USRP_def split: prod.splits dest: map_index_keeps)

lemma RX_STREAMER_keeps:
  "RX_STREAMER g h = (g1, p) \<Longrightarrow> get_usrp_ptrs g k = Some e \<Longrightarrow> get_usrp_ptrs g1 k = Some e"
  by (auto simp: RX_STREAMER_def split: prod.splits dest: map_index_keeps)

lemma TX_STREAMER_keeps:
  "TX_STREAMER g h = (g1, p) \<Longrightarrow> get_usrp_ptrs g k = Some e \<Longrightarrow> get_usrp_ptrs g1 k = Some e"
  by (auto simp: TX_STREAMER_def split: prod.splits dest: map_index_keeps)

lemma get_master_clock_rate_keeps:
  assumes "get_usrp_ptrs g k = Some e"
  shows "get_usrp_ptrs (fst (state_of (uhd_usrp_get_master_clock_rate n g h mboard out))) k = Some e"
proof -
  obtain g1 p where u: "USRP g h = (g1, p)" by (cases "USRP g h")
  from USRP_keeps [OF u assms] show ?thesis
    by (simp add: uhd_usrp_get_master_clock_rate_def u save_usrp_error_def
        split: option.splits sum.splits)
qed

lemma set_master_clock_rate_keeps:
  assumes "get_usrp_ptrs g k = Some e"
  shows "get_usrp_ptrs (fst (state_of (uhd_usrp_set_master_clock_rate n g h rate mboard))) k = Some e"
proof -
  obtain g1 p where u: "USRP g h = (g1, p)" by (cases "USRP g h")
  from USRP_keeps [OF u assms] show ?thesis
    by (simp add: uhd_usrp_set_master_clock_rate_def u save_usrp_error_def
        split: option.splits sum.splits)
qed

lemma get_pp_string_keeps:
  assumes "get_usrp_ptrs g k = Some e"
  shows "get_usrp_ptrs (fst (state_of (uhd_usrp_get_pp_string n g h out len))) k = Some e"
proof -
  obtain g1 p where u: "USRP g h = (g1, p)" by (cases "USRP g h")
  from USRP_keeps [OF u assms] show ?thesis
    by (simp add: uhd_usrp_get_pp_string_def u save_usrp_error_def
        split: option.splits sum.splits)
qed

lemma get_time_sources_keeps:
  assumes "get_usrp_ptrs g k = Some e"
  shows "get_usrp_ptrs (fst (state_of (uhd_usrp_get_time_sources n g h mboard out len num))) k =
    Some e"
proof -
  obtain g1 p where u: "USRP g h = (g1, p)" by (cases "USRP g h")
  from USRP_keeps [OF u assms] show ?thesis
    by (simp add: uhd_usrp_get_time_sources_def u save_usrp_error_def Let_def
        split: option.splits sum.splits)
qed

lemma get_rx_gain_names_keeps:
  assumes "get_usrp_ptrs g k = Some e"
  shows "get_usrp_ptrs (fst (state_of (uhd_usrp_get_rx_gain_names n g h chan out len num))) k =
    Some e"
proof -
  obtain g1 p where u: "USRP g h = (g1, p)" by (cases "USRP g h")
  from USRP_keeps [OF u assms] show ?thesis
    by (simp add: uhd_usrp_get_rx_gain_names_def u save_usrp_error_def Let_def
        split: option.splits sum.splits)
qed

lemma rx_streamer_num_channels_keeps:
  assumes "get_usrp_ptrs g k = Some e"
  shows "get_usrp_ptrs (fst (state_of (uhd_rx_streamer_num_channels n g h out))) k = Some e"
proof -
  obtain g1 p where u: "RX_STREAMER g h = (g1, p)" by (cases "RX_STREAMER g h")
  from RX_STREAMER_keeps [OF u assms] show ?thesis
    by (simp add: uhd_rx_streamer_num_channels_def u save_streamer_error_def
        split: option.splits sum.splits)
qed

lemma tx_streamer_num_channels_keeps:
  assumes "get_usrp_ptrs g k = Some e"
  shows "get_usrp_ptrs (fst (state_of (uhd_tx_streamer_num_channels n g h out))) k = Some e"
proof -
  obtain g1 p where u: "TX_STREAMER g h = (g1, p)" by (cases "TX_STREAMER g h")
  from TX_STREAMER_keeps [OF u assms] show ?thesis
    by (simp add: uhd_tx_streamer_num_channels_def u save_streamer_error_def
        split: option.splits sum.splits)
qed

lemma rx_streamer_recv_keeps:
  assumes "get_usrp_ptrs g k = Some e"
  shows "get_usrp_ptrs (fst (state_of (uhd_rx_streamer_recv n r g h out))) k = Some e"
proof -
  obtain g1 p where u: "RX_STREAMER g h = (g1, p)" by (cases "RX_STREAMER g h")
  obtain g2 p2 where u2: "RX_STREAMER g1 h = (g2, p2)" by (cases "RX_STREAMER g1 h")
  from RX_STREAMER_keeps [OF u assms] have k1: "get_usrp_ptrs g1 k = Some e" .
  from RX_STREAMER_keeps [OF u2 k1] have k2: "get_usrp_ptrs g2 k = Some e" .
  from k1 k2 show ?thesis
    by (simp add: uhd_rx_streamer_recv_def u u2 save_streamer_error_def
        split: option.splits sum.splits)
qed


lemma vector_index_prefix:
  "prefix v v' \<Longrightarrow> vector_index v i = Some s \<Longrightarrow> vector_index v' i = Some s"
  by (auto simp: vector_index_def prefix_def nth_append split: if_splits)

text \<open>
  Attach leaves every entry but the device's own as it is and appends one streamer
  to the device's entry, or leaves that as it is too.
\<close>

lemma rx_attach_entry:
  assumes "get_usrp_ptrs g k = Some e"
  shows "\<exists>e'. get_usrp_ptrs (fst (state_of (uhd_usrp_get_rx_stream n g h_u h_s))) k = Some e' \<and>
              ptr e' = ptr e \<and> prefix (rx_streamers e) (rx_streamers e') \<and>
              tx_streamers e' = tx_streamers e"
proof (cases "get_usrp_ptrs g (usrp_index h_u)")
  case None
  with assms show ?thesis by (simp add: rx_attach_absent)
next
  case (Some e0)
  show ?thesis
  proof (cases "ptr e0")
    case None
    with Some assms show ?thesis by (simp add: rx_attach_null)
  next
    case d: (Some d)
    show ?thesis
    proof (cases "n d")
      case (Inl f)
      with Some d assms show ?thesis by (simp add: rx_attach_fault)
    next
      case (Inr s)
      from rx_attach_ok [where n = n and h_s = h_s, OF Some d Inr] assms Some show ?thesis
        by (cases "k = usrp_index h_u") auto
    qed
  qed
qed

lemma tx_attach_entry:
  assumes "get_usrp_ptrs g k = Some e"
  shows "\<exists>e'. get_usrp_ptrs (fst (state_of (uhd_usrp_get_tx_stream n g h_u h_s))) k = Some e' \<and>
              ptr e' = ptr e \<and> rx_streamers e' = rx_streamers e \<and>
              prefix (tx_streamers e) (tx_streamers e')"
proof (cases "get_usrp_ptrs g (usrp_index h_u)")
  case None
  with assms show ?thesis by (simp add: tx_attach_absent)
next
  case (Some e0)
  show ?thesis
  proof (cases "ptr e0")
    case None
    with Some assms show ?thesis by (simp add: tx_attach_null)
  next
    case d: (Some d)
    show ?thesis
    proof (cases "n d")
      case (Inl f)
      with Some d assms show ?thesis by (simp add: tx_attach_fault)
    next
      case (Inr s)
      from tx_attach_ok [where n = n and h_s = h_s, OF Some d Inr] assms Some show ?thesis
        by (cases "k = usrp_index h_u") auto
    qed
  qed
qed

lemma make_keeps:
  assumes "get_usrp_ptrs g k = Some e" and "\<not> assigns_key (Usrp_make h made) g k"
  shows "get_usrp_ptrs (fst (state_of (uhd_usrp_make g h made))) k = Some e"
  using assms by (cases made) (simp_all add: make_fault make_ok)

lemma free_keeps:
  assumes "get_usrp_ptrs g k = Some e" and "\<not> ends_entry (Usrp_free h) k"
  shows "get_usrp_ptrs (fst (state_of (uhd_usrp_free g h))) k = Some e"
proof (cases h)
  case None
  with assms(1) free_null_entry [OF assms(1)] show ?thesis by simp
next
  case (Some u)
  with assms show ?thesis
    by (cases "get_usrp_ptrs g (usrp_index u)") (simp_all add: free_absent free_present)
qed

lemma globals_after_entry:
  assumes "get_usrp_ptrs g k = Some e" and "\<not> ends_entry c k" and "\<not> assigns_key c g k"
  shows "\<exists>e'. get_usrp_ptrs (globals_after g c) k = Some e' \<and> ptr e' = ptr e \<and>
              prefix (rx_streamers e) (rx_streamers e') \<and>
              prefix (tx_streamers e) (tx_streamers e')"
proof (cases c)
  case (Usrp_make h made)
  with assms have "get_usrp_ptrs (fst (state_of (uhd_usrp_make g h made))) k = Some e"
    by (intro make_keeps) simp_all
  with Usrp_make show ?thesis by simp
next
  case (Usrp_free h)
  with assms have "get_usrp_ptrs (fst (state_of (uhd_usrp_free g h))) k = Some e"
    by (intro free_keeps) simp_all
  with Usrp_free show ?thesis by simp
next
  case (Usrp_get_rx_stream n h_u h_s)
  with rx_attach_entry [OF assms(1), of n h_u h_s] show ?thesis by auto
next
  case (Usrp_get_tx_stream n h_u h_s)
  with tx_attach_entry [OF assms(1), of n h_u h_s] show ?thesis by auto
next
  case (Rx_streamer_make h u s)
  with assms show ?thesis by (simp add: uhd_rx_streamer_make_def)
next
  case (Tx_streamer_make h u s)
  with assms show ?thesis by (simp add: uhd_tx_streamer_make_def)
next
  case (Rx_streamer_free h)
  with assms show ?thesis by (simp add: uhd_rx_streamer_free_def)
next
  case (Tx_streamer_free h)
  with assms show ?thesis by (simp add: uhd_tx_streamer_free_def)
next
  case (Usrp_get_master_clock_rate n h mboard out)
  with get_master_clock_rate_keeps [OF assms(1), of n h mboard out] show ?thesis by simp
next
  case (Usrp_set_master_clock_rate n h rate mboard)
  with set_master_clock_rate_keeps [OF assms(1), of n h rate mboard] show ?thesis by simp
next
  case (Usrp_get_pp_string n h out len)
  with get_pp_string_keeps [OF assms(1), of n h out len] show ?thesis by simp
next
  case (Usrp_get_time_sources n h mboard out len num)
  with get_time_sources_keeps [OF assms(1), of n h mboard out len num] show ?thesis by simp
next
  case (Usrp_get_rx_gain_names n h chan out len num)
  with get_rx_gain_names_keeps [OF assms(1), of n h chan out len num] show ?thesis by simp
next
  case (Rx_streamer_num_channels n h out)
  with rx_streamer_num_channels_keeps [OF assms(1), of n h out] show ?thesis by simp
next
  case (Tx_streamer_num_channels n h out)
  with tx_streamer_num_channels_keeps [OF assms(1), of n h out] show ?thesis by simp
next
  case (Rx_streamer_recv n r h out)
  with rx_streamer_recv_keeps [OF assms(1), of n r h out] show ?thesis by simp
qed

text \<open>The same over a run of calls.\<close>

lemma run_calls_entry:
  assumes "get_usrp_ptrs g k = Some e" and "entry_lives g cs k"
  shows "\<exists>e'. get_usrp_ptrs (run_calls g cs) k = Some e' \<and> ptr e' = ptr e \<and>
              prefix (rx_streamers e) (rx_streamers e') \<and>
              prefix (tx_streamers e) (tx_streamers e')"
  using assms
proof (induction cs arbitrary: g e)
  case Nil
  then show ?case by simp
next
  case (Cons c cs)
  from Cons.prems(2) have n: "\<not> ends_entry c k" "\<not> assigns_key c g k"
    and l: "entry_lives (globals_after g c) cs k"
    by simp_all
  from globals_after_entry [OF Cons.prems(1) n] obtain e1 where e1:
    "get_usrp_ptrs (globals_after g c) k = Some e1" "ptr e1 = ptr e"
    "prefix (rx_streamers e) (rx_streamers e1)" "prefix (tx_streamers e) (tx_streamers e1)"
    by blast
  from Cons.IH [OF e1(1) l] obtain e' where e':
    "get_usrp_ptrs (run_calls (globals_after g c) cs) k = Some e'" "ptr e' = ptr e1"
    "prefix (rx_streamers e1) (rx_streamers e')" "prefix (tx_streamers e1) (tx_streamers e')"
    by blast
  from e1(3) e'(3) have rx: "prefix (rx_streamers e) (rx_streamers e')"
    by (rule prefix_order.trans)
  from e1(4) e'(4) have tx: "prefix (tx_streamers e) (tx_streamers e')"
    by (rule prefix_order.trans)
  from e'(1,2) e1(2) rx tx show ?case by simp
qed

text \<open>
  C8, as amended. Take any run of calls of the interface and any entry of the
  registry that no call of the run destroys (\<open>uhd_usrp_free\<close> of a handle with the
  entry's key) or assigns anew (a successful \<open>uhd_usrp_make\<close> made while the counter
  stands at the entry's key). After the run the key still has an entry, with the same
  device; its receive and transmit collections are the old ones, possibly with
  elements appended at the end, so every offset that resolved to a streamer resolves
  to the same streamer. Freeing a streamer handle leaves the global state, and so the
  whole registry, as it was. A successful creation made while the counter stands at a
  key puts a fresh entry with empty collections under that key, whatever was there.
\<close>

theorem streamer_collections_append_only:
  assumes "get_usrp_ptrs g k = Some e" and "entry_lives g cs k"
  shows "(\<exists>e'. get_usrp_ptrs (run_calls g cs) k = Some e' \<and> ptr e' = ptr e \<and>
              prefix (rx_streamers e) (rx_streamers e') \<and>
              prefix (tx_streamers e) (tx_streamers e') \<and>
              (\<forall>i s. vector_index (rx_streamers e) i = Some s \<longrightarrow>
                     vector_index (rx_streamers e') i = Some s) \<and>
              (\<forall>i s. vector_index (tx_streamers e) i = Some s \<longrightarrow>
                     vector_index (tx_streamers e') i = Some s)) \<and>
         fst (state_of (uhd_rx_streamer_free g h)) = g \<and>
         fst (state_of (uhd_tx_streamer_free g h)) = g \<and>
         get_usrp_ptrs (fst (state_of (uhd_usrp_make g hv (Inr d)))) (usrp_counter g) =
           Some \<lparr>ptr = Some d, rx_streamers = [], tx_streamers = []\<rparr>"
proof -
  from run_calls_entry [OF assms] obtain e' where e':
    "get_usrp_ptrs (run_calls g cs) k = Some e'" "ptr e' = ptr e"
    "prefix (rx_streamers e) (rx_streamers e')" "prefix (tx_streamers e) (tx_streamers e')"
    by blast
  from e'(3,4) have
    "\<forall>i s. vector_index (rx_streamers e) i = Some s \<longrightarrow> vector_index (rx_streamers e') i = Some s"
    "\<forall>i s. vector_index (tx_streamers e) i = Some s \<longrightarrow> vector_index (tx_streamers e') i = Some s"
    by (blast intro: vector_index_prefix)+
  with e' have "\<exists>e'. get_usrp_ptrs (run_calls g cs) k = Some e' \<and> ptr e' = ptr e \<and>
              prefix (rx_streamers e) (rx_streamers e') \<and>
              prefix (tx_streamers e) (tx_streamers e') \<and>
              (\<forall>i s. vector_index (rx_streamers e) i = Some s \<longrightarrow>
                     vector_index (rx_streamers e') i = Some s) \<and>
              (\<forall>i s. vector_index (tx_streamers e) i = Some s \<longrightarrow>
                     vector_index (tx_streamers e') i = Some s)"
    by blast
  moreover have "fst (state_of (uhd_rx_streamer_free g h)) = g"
    by (simp add: uhd_rx_streamer_free_def)
  moreover have "fst (state_of (uhd_tx_streamer_free g h)) = g"
    by (simp add: uhd_tx_streamer_free_def)
  moreover have
    "get_usrp_ptrs (fst (state_of (uhd_usrp_make g hv (Inr d)))) (usrp_counter g) =
       Some \<lparr>ptr = Some d, rx_streamers = [], tx_streamers = []\<rparr>"
    by (simp add: make_ok)
  ultimately show ?thesis by blast
qed

theorem streamer_collections_append_only_witness:
  "get_usrp_ptrs example_globals 0 =
     Some \<lparr>ptr = Some 10, rx_streamers = [20], tx_streamers = []\<rparr> \<and>
   entry_lives example_globals
     [Usrp_get_rx_stream (\<lambda>d. Inr 21) (example_usrp 0) example_streamer,
      Rx_streamer_free (Some example_streamer),
      Usrp_make None (Inr 12) :: unit api_call] 0 \<and>
   get_usrp_ptrs
     (run_calls example_globals
        [Usrp_get_rx_stream (\<lambda>d. Inr 21) (example_usrp 0) example_streamer,
         Rx_streamer_free (Some example_streamer),
         Usrp_make None (Inr 12) :: unit api_call]) 0 =
     Some \<lparr>ptr = Some 10, rx_streamers = [20, 21], tx_streamers = []\<rparr> \<and>
   prefix [20 :: sptr] [20, 21] \<and>
   vector_index [20, 21] 0 = Some 20 \<and>
   fst (state_of (uhd_rx_streamer_free example_globals (Some example_streamer))) = example_globals"
proof -
  let ?a = "Usrp_get_rx_stream (\<lambda>d. Inr 21) (example_usrp 0) example_streamer :: unit api_call"
  let ?cs = "[?a, Rx_streamer_free (Some example_streamer), Usrp_make None (Inr 12)]"
  let ?g1 = "example_globals\<lparr>get_usrp_ptrs := (get_usrp_ptrs example_globals)
               (0 \<mapsto> \<lparr>ptr = Some 10, rx_streamers = [20, 21], tx_streamers = []\<rparr>)\<rparr>"
  have e: "get_usrp_ptrs example_globals 0 =
     Some \<lparr>ptr = Some 10, rx_streamers = [20], tx_streamers = []\<rparr>"
    by (simp add: example_globals_def)
  have a: "globals_after example_globals ?a = ?g1"
    using rx_attach_ok [where n = "\<lambda>d. Inr 21" and g = example_globals
        and h_u = "example_usrp 0" and h_s = example_streamer and d = 10 and s = 21
        and e = "\<lparr>ptr = Some 10, rx_streamers = [20], tx_streamers = []\<rparr>"]
    by (simp add: example_globals_def example_usrp_def)
  have b: "globals_after ?g1 (Rx_streamer_free (Some example_streamer) :: unit api_call) = ?g1"
    by (simp add: uhd_rx_streamer_free_def)
  have c: "usrp_counter ?g1 = 2"
    by (simp add: example_globals_def)
  have l: "entry_lives example_globals ?cs 0"
    by (simp only: entry_lives.simps a b) (simp add: c)
  have r: "get_usrp_ptrs (run_calls example_globals ?cs) 0 =
     Some \<lparr>ptr = Some 10, rx_streamers = [20, 21], tx_streamers = []\<rparr>"
    by (simp only: run_calls.simps a b) (simp add: make_ok c)
  have v: "vector_index [20, 21] 0 = Some 20"
    by (simp add: vector_index_def)
  from streamer_collections_append_only [OF e l, of "Some example_streamer"] r e l v
  show ?thesis by auto
qed

text \<open>
  The claim as stated fails when the counter comes round to the key of a registered
  entry. A process starts with the counter at 0 and an empty registry, creates a
  device (index 0) and attaches a receive streamer to it: offset 0 of entry 0 resolves
  to that streamer. Then \<open>2 ^ 64 - 1\<close> creations fail, which takes the counter from 1
  back to 0. The next successful creation is not a destruction of entry 0, yet it
  assigns a new device with empty collections to key 0: the receive collection has
  shrunk, and offset 0 of the streamer handle no longer resolves.
\<close>

theorem entry_overwritten_counterexample:
  "uhd_usrp_make empty_globals None (Inr 10) =
     Returns UHD_ERROR_NONE
       (\<lparr>usrp_counter = 1,
         get_usrp_ptrs = [0 \<mapsto> \<lparr>ptr = Some 10, rx_streamers = [], tx_streamers = []\<rparr>]\<rparr>,
        Some (example_usrp 0),
        [Lock usrp_make_mutex, Native ''multi_usrp::make'', Unlock usrp_make_mutex]) \<and>
   uhd_usrp_get_rx_stream (\<lambda>d. Inr 20)
       \<lparr>usrp_counter = 1,
        get_usrp_ptrs = [0 \<mapsto> \<lparr>ptr = Some 10, rx_streamers = [], tx_streamers = []\<rparr>]\<rparr>
       (example_usrp 0) example_streamer =
     Returns UHD_ERROR_NONE
       (\<lparr>usrp_counter = 1,
         get_usrp_ptrs = [0 \<mapsto> \<lparr>ptr = Some 10, rx_streamers = [20], tx_streamers = []\<rparr>]\<rparr>,
        example_usrp 0,
        \<lparr>usrp_index = 0, last_error = [], streamer_index = 0\<rparr>,
        [Lock usrp_get_rx_stream_mutex, Native ''get_rx_stream'',
         Unlock usrp_get_rx_stream_mutex]) \<and>
   RX_STREAMER
       \<lparr>usrp_counter = 1,
        get_usrp_ptrs = [0 \<mapsto> \<lparr>ptr = Some 10, rx_streamers = [20], tx_streamers = []\<rparr>]\<rparr>
       \<lparr>usrp_index = 0, last_error = [], streamer_index = 0\<rparr> =
     (\<lparr>usrp_counter = 1,
       get_usrp_ptrs = [0 \<mapsto> \<lparr>ptr = Some 10, rx_streamers = [20], tx_streamers = []\<rparr>]\<rparr>,
      Some 20) \<and>
   fst (make_all
          \<lparr>usrp_counter = 1,
           get_usrp_ptrs = [0 \<mapsto> \<lparr>ptr = Some 10, rx_streamers = [20], tx_streamers = []\<rparr>]\<rparr>
          (replicate (2 ^ 64 - 1) (Inl (Fault Runtime_fault ''no device'')))) =
     \<lparr>usrp_counter = 0,
      get_usrp_ptrs = [0 \<mapsto> \<lparr>ptr = Some 10, rx_streamers = [20], tx_streamers = []\<rparr>]\<rparr> \<and>
   \<not> ends_entry (Usrp_make None (Inr 11) :: unit api_call) 0 \<and>
   get_usrp_ptrs
     (globals_after
        \<lparr>usrp_counter = 0,
         get_usrp_ptrs = [0 \<mapsto> \<lparr>ptr = Some 10, rx_streamers = [20], tx_streamers = []\<rparr>]\<rparr>
        (Usrp_make None (Inr 11) :: unit api_call)) 0 =
     Some \<lparr>ptr = Some 11, rx_streamers = [], tx_streamers = []\<rparr> \<and>
   \<not> prefix [20 :: sptr] [] \<and>
   RX_STREAMER
       \<lparr>usrp_counter = 1,
        get_usrp_ptrs = [0 \<mapsto> \<lparr>ptr = Some 11, rx_streamers = [], tx_streamers = []\<rparr>]\<rparr>
       \<lparr>usrp_index = 0, last_error = [], streamer_index = 0\<rparr> =
     (\<lparr>usrp_counter = 1,
       get_usrp_ptrs = [0 \<mapsto> \<lparr>ptr = Some 11, rx_streamers = [], tx_streamers = []\<rparr>]\<rparr>,
      None)"
proof (intro conjI)
  show "uhd_usrp_make empty_globals None (Inr 10) =
     Returns UHD_ERROR_NONE
       (\<lparr>usrp_counter = 1,
         get_usrp_ptrs = [0 \<mapsto> \<lparr>ptr = Some 10, rx_streamers = [], tx_streamers = []\<rparr>]\<rparr>,
        Some (example_usrp 0),
        [Lock usrp_make_mutex, Native ''multi_usrp::make'', Unlock usrp_make_mutex])"
    by (simp add: make_ok empty_globals_def example_usrp_def)
  show "uhd_usrp_get_rx_stream (\<lambda>d. Inr 20)
       \<lparr>usrp_counter = 1,
        get_usrp_ptrs = [0 \<mapsto> \<lparr>ptr = Some 10, rx_streamers = [], tx_streamers = []\<rparr>]\<rparr>
       (example_usrp 0) example_streamer =
     Returns UHD_ERROR_NONE
       (\<lparr>usrp_counter = 1,
         get_usrp_ptrs = [0 \<mapsto> \<lparr>ptr = Some 10, rx_streamers = [20], tx_streamers = []\<rparr>]\<rparr>,
        example_usrp 0,
        \<lparr>usrp_index = 0, last_error = [], streamer_index = 0\<rparr>,
        [Lock usrp_get_rx_stream_mutex, Native ''get_rx_stream'',
         Unlock usrp_get_rx_stream_mutex])"
    by (simp add: uhd_usrp_get_rx_stream_def map_count_def map_index_def example_usrp_def
        example_streamer_def)
  show "RX_STREAMER
       \<lparr>usrp_counter = 1,
        get_usrp_ptrs = [0 \<mapsto> \<lparr>ptr = Some 10, rx_streamers = [20], tx_streamers = []\<rparr>]\<rparr>
       \<lparr>usrp_index = 0, last_error = [], streamer_index = 0\<rparr> =
     (\<lparr>usrp_counter = 1,
       get_usrp_ptrs = [0 \<mapsto> \<lparr>ptr = Some 10, rx_streamers = [20], tx_streamers = []\<rparr>]\<rparr>,
      Some 20)"
    by (simp add: RX_STREAMER_def map_index_def vector_index_def)
  have "(of_nat (2 ^ 64 - 1) :: size_t) = - 1"
    by simp
  then show "fst (make_all
          \<lparr>usrp_counter = 1,
           get_usrp_ptrs = [0 \<mapsto> \<lparr>ptr = Some 10, rx_streamers = [20], tx_streamers = []\<rparr>]\<rparr>
          (replicate (2 ^ 64 - 1) (Inl (Fault Runtime_fault ''no device'')))) =
     \<lparr>usrp_counter = 0,
      get_usrp_ptrs = [0 \<mapsto> \<lparr>ptr = Some 10, rx_streamers = [20], tx_streamers = []\<rparr>]\<rparr>"
    by (simp only: make_all_failures) simp
  show "\<not> ends_entry (Usrp_make None (Inr 11) :: unit api_call) 0"
    by simp
  show "get_usrp_ptrs
     (globals_after
        \<lparr>usrp_counter = 0,
         get_usrp_ptrs = [0 \<mapsto> \<lparr>ptr = Some 10, rx_streamers = [20], tx_streamers = []\<rparr>]\<rparr>
        (Usrp_make None (Inr 11) :: unit api_call)) 0 =
     Some \<lparr>ptr = Some 11, rx_streamers = [], tx_streamers = []\<rparr>"
    by (simp add: make_ok)
  show "\<not> prefix [20 :: sptr] []"
    by simp
  show "RX_STREAMER
       \<lparr>usrp_counter = 1,
        get_usrp_ptrs = [0 \<mapsto> \<lparr>ptr = Some 11, rx_streamers = [], tx_streamers = []\<rparr>]\<rparr>
       \<lparr>usrp_index = 0, last_error = [], streamer_index = 0\<rparr> =
     (\<lparr>usrp_counter = 1,
       get_usrp_ptrs = [0 \<mapsto> \<lparr>ptr = Some 11, rx_streamers = [], tx_streamers = []\<rparr>]\<rparr>,
      None)"
    by (simp add: RX_STREAMER_def map_index_def vector_index_def)
qed

subsection \<open>What a call does to the counter\<close>

lemma map_index_counter: "map_index g i = (g1, e1) \<Longrightarrow> usrp_counter g1 = usrp_counter g"
  by (auto simp: map_index_def split: option.splits)

lemma USRP_counter: "USRP g h = (g1, p) \<Longrightarrow> usrp_counter g1 = usrp_counter g"
  by (auto simp: USRP_def split: prod.splits dest: map_index_counter)

lemma RX_STREAMER_counter: "RX_STREAMER g h = (g1, p) \<Longrightarrow> usrp_counter g1 = usrp_counter g"
  by (auto simp: RX_STREAMER_def split: prod.splits dest: map_index_counter)

lemma TX_STREAMER_counter: "TX_STREAMER g h = (g1, p) \<Longrightarrow> usrp_counter g1 = usrp_counter g"
  by (auto simp: TX_STREAMER_def split: prod.splits dest: map_index_counter)

lemma get_master_clock_rate_counter:
  "usrp_counter (fst (state_of (uhd_usrp_get_master_clock_rate n g h mboard out))) =
     usrp_counter g"
proof -
  obtain g1 p where u: "USRP g h = (g1, p)" by (cases "USRP g h")
  from USRP_counter [OF u] show ?thesis
    by (simp add: uhd_usrp_get_master_clock_rate_def u save_usrp_error_def
        split: option.splits sum.splits)
qed

lemma set_master_clock_rate_counter:
  "usrp_counter (fst (state_of (uhd_usrp_set_master_clock_rate n g h rate mboard))) =
     usrp_counter g"
proof -
  obtain g1 p where u: "USRP g h = (g1, p)" by (cases "USRP g h")
  from USRP_counter [OF u] show ?thesis
    by (simp add: uhd_usrp_set_master_clock_rate_def u save_usrp_error_def
        split: option.splits sum.splits)
qed

lemma get_pp_string_counter:
  "usrp_counter (fst (state_of (uhd_usrp_get_pp_string n g h out len))) = usrp_counter g"
proof -
  obtain g1 p where u: "USRP g h = (g1, p)" by (cases "USRP g h")
  from USRP_counter [OF u] show ?thesis
    by (simp add: uhd_usrp_get_pp_string_def u save_usrp_error_def
        split: option.splits sum.splits)
qed

lemma get_time_sources_counter:
  "usrp_counter (fst (state_of (uhd_usrp_get_time_sources n g h mboard out len num))) =
     usrp_counter g"
proof -
  obtain g1 p where u: "USRP g h = (g1, p)" by (cases "USRP g h")
  from USRP_counter [OF u] show ?thesis
    by (simp add: uhd_usrp_get_time_sources_def u save_usrp_error_def Let_def
        split: option.splits sum.splits)
qed

lemma get_rx_gain_names_counter:
  "usrp_counter (fst (state_of (uhd_usrp_get_rx_gain_names n g h chan out len num))) =
     usrp_counter g"
proof -
  obtain g1 p where u: "USRP g h = (g1, p)" by (cases "USRP g h")
  from USRP_counter [OF u] show ?thesis
    by (simp add: uhd_usrp_get_rx_gain_names_def u save_usrp_error_def Let_def
        split: option.splits sum.splits)
qed

lemma rx_streamer_num_channels_counter:
  "usrp_counter (fst (state_of (uhd_rx_streamer_num_channels n g h out))) = usrp_counter g"
proof -
  obtain g1 p where u: "RX_STREAMER g h = (g1, p)" by (cases "RX_STREAMER g h")
  from RX_STREAMER_counter [OF u] show ?thesis
    by (simp add: uhd_rx_streamer_num_channels_def u save_streamer_error_def
        split: option.splits sum.splits)
qed

lemma tx_streamer_num_channels_counter:
  "usrp_counter (fst (state_of (uhd_tx_streamer_num_channels n g h out))) = usrp_counter g"
proof -
  obtain g1 p where u: "TX_STREAMER g h = (g1, p)" by (cases "TX_STREAMER g h")
  from TX_STREAMER_counter [OF u] show ?thesis
    by (simp add: uhd_tx_streamer_num_channels_def u save_streamer_error_def
        split: option.splits sum.splits)
qed

lemma rx_streamer_recv_counter:
  "usrp_counter (fst (state_of (uhd_rx_streamer_recv n r g h out))) = usrp_counter g"
proof -
  obtain g1 p where u: "RX_STREAMER g h = (g1, p)" by (cases "RX_STREAMER g h")
  obtain g2 p2 where u2: "RX_STREAMER g1 h = (g2, p2)" by (cases "RX_STREAMER g1 h")
  from RX_STREAMER_counter [OF u] have k1: "usrp_counter g1 = usrp_counter g" .
  from RX_STREAMER_counter [OF u2] k1 have k2: "usrp_counter g2 = usrp_counter g" by simp
  from k1 k2 show ?thesis
    by (simp add: uhd_rx_streamer_recv_def u u2 save_streamer_error_def
        split: option.splits sum.splits)
qed

lemma rx_attach_counter:
  "usrp_counter (fst (state_of (uhd_usrp_get_rx_stream n g h_u h_s))) = usrp_counter g"
proof (cases "get_usrp_ptrs g (usrp_index h_u)")
  case None
  then show ?thesis by (simp add: rx_attach_absent)
next
  case (Some e)
  show ?thesis
  proof (cases "ptr e")
    case None
    with Some show ?thesis by (simp add: rx_attach_null)
  next
    case d: (Some d)
    show ?thesis
    proof (cases "n d")
      case (Inl f)
      with Some d show ?thesis by (simp add: rx_attach_fault)
    next
      case (Inr s)
      from rx_attach_ok [where n = n and h_s = h_s, OF Some d Inr] show ?thesis by simp
    qed
  qed
qed

lemma tx_attach_counter:
  "usrp_counter (fst (state_of (uhd_usrp_get_tx_stream n g h_u h_s))) = usrp_counter g"
proof (cases "get_usrp_ptrs g (usrp_index h_u)")
  case None
  then show ?thesis by (simp add: tx_attach_absent)
next
  case (Some e)
  show ?thesis
  proof (cases "ptr e")
    case None
    with Some show ?thesis by (simp add: tx_attach_null)
  next
    case d: (Some d)
    show ?thesis
    proof (cases "n d")
      case (Inl f)
      with Some d show ?thesis by (simp add: tx_attach_fault)
    next
      case (Inr s)
      from tx_attach_ok [where n = n and h_s = h_s, OF Some d Inr] show ?thesis by simp
    qed
  qed
qed

lemma free_counter: "usrp_counter (fst (state_of (uhd_usrp_free g h))) = usrp_counter g"
proof (cases h)
  case None
  then show ?thesis by (simp add: uhd_usrp_free_def)
next
  case (Some u)
  then show ?thesis
    by (cases "get_usrp_ptrs g (usrp_index u)") (simp_all add: free_absent free_present)
qed

text \<open>Only a creation moves the counter, and a creation that fails moves it too.\<close>

lemma globals_after_counter:
  assumes "\<not> successful_make c"
  shows "usrp_counter (globals_after g c) =
           usrp_counter g + (if failed_make c then 1 else 0)"
proof (cases c)
  case (Usrp_make h made)
  with assms show ?thesis by (cases made) (simp_all add: make_fault)
next
  case (Usrp_free h)
  then show ?thesis by (simp add: free_counter)
next
  case (Usrp_get_rx_stream n h_u h_s)
  then show ?thesis by (simp add: rx_attach_counter)
next
  case (Usrp_get_tx_stream n h_u h_s)
  then show ?thesis by (simp add: tx_attach_counter)
next
  case (Rx_streamer_make h u s)
  then show ?thesis by (simp add: uhd_rx_streamer_make_def)
next
  case (Tx_streamer_make h u s)
  then show ?thesis by (simp add: uhd_tx_streamer_make_def)
next
  case (Rx_streamer_free h)
  then show ?thesis by (simp add: uhd_rx_streamer_free_def)
next
  case (Tx_streamer_free h)
  then show ?thesis by (simp add: uhd_tx_streamer_free_def)
next
  case (Usrp_get_master_clock_rate n h mboard out)
  then show ?thesis by (simp add: get_master_clock_rate_counter)
next
  case (Usrp_set_master_clock_rate n h rate mboard)
  then show ?thesis by (simp add: set_master_clock_rate_counter)
next
  case (Usrp_get_pp_string n h out len)
  then show ?thesis by (simp add: get_pp_string_counter)
next
  case (Usrp_get_time_sources n h mboard out len num)
  then show ?thesis by (simp add: get_time_sources_counter)
next
  case (Usrp_get_rx_gain_names n h chan out len num)
  then show ?thesis by (simp add: get_rx_gain_names_counter)
next
  case (Rx_streamer_num_channels n h out)
  then show ?thesis by (simp add: rx_streamer_num_channels_counter)
next
  case (Tx_streamer_num_channels n h out)
  then show ?thesis by (simp add: tx_streamer_num_channels_counter)
next
  case (Rx_streamer_recv n r h out)
  then show ?thesis by (simp add: rx_streamer_recv_counter)
qed

lemma run_calls_counter:
  assumes "list_all (\<lambda>c. \<not> successful_make c) cs"
  shows "usrp_counter (run_calls g cs) =
           usrp_counter g + of_nat (length (filter failed_make cs))"
  using assms
proof (induction cs arbitrary: g)
  case Nil
  show ?case by simp
next
  case (Cons c cs)
  from Cons.prems have c: "\<not> successful_make c"
    and cs: "list_all (\<lambda>c. \<not> successful_make c) cs"
    by simp_all
  from Cons.IH [OF cs, of "globals_after g c"] globals_after_counter [OF c, of g]
  show ?case by (simp add: add.assoc)
qed

lemma counter_plus_less:
  fixes c :: size_t
  assumes "unat c + k < 2 ^ 64" "0 < k"
  shows "c < c + of_nat k"
  using unat_counter_plus [OF assms(1)] assms(2) by (simp add: word_less_nat_alt)

text \<open>
  C9, as amended. When the native construction throws, \<open>uhd_usrp_make\<close> returns
  the fault's code (never \<open>UHD_ERROR_NONE\<close>), leaves the registry and the caller's
  handle variable as they were, and has incremented the counter. Whatever calls come
  next, as long as no creation among them succeeds, the next creation that succeeds
  returns a handle whose index is the consumed index plus one plus the number \<open>j\<close> of
  creations that failed in between, modulo \<open>2 ^ 64\<close>. That index differs from the
  consumed one while \<open>j + 1 < 2 ^ 64\<close>, and it is strictly larger as long as the
  counter has not wrapped around.
\<close>

theorem failed_make_consumes_index:
  "uhd_usrp_make g h (Inl f) =
     Returns (error_from_fault f)
       (g\<lparr>usrp_counter := usrp_counter g + 1\<rparr>, h,
        [Lock usrp_make_mutex, Native ''multi_usrp::make'', Unlock usrp_make_mutex]) \<and>
   error_from_fault f \<noteq> UHD_ERROR_NONE \<and>
   get_usrp_ptrs (g\<lparr>usrp_counter := usrp_counter g + 1\<rparr>) = get_usrp_ptrs g \<and>
   (list_all (\<lambda>c. \<not> successful_make c) cs \<longrightarrow>
      (\<exists>g2 evs.
         uhd_usrp_make (run_calls (g\<lparr>usrp_counter := usrp_counter g + 1\<rparr>) cs) h_next (Inr d) =
           Returns UHD_ERROR_NONE
             (g2,
              Some \<lparr>usrp_index = usrp_counter g + 1 + of_nat (length (filter failed_make cs)),
                    last_error = []\<rparr>,
              evs)) \<and>
      (length (filter failed_make cs) + 1 < 2 ^ 64 \<longrightarrow>
         usrp_counter g + 1 + of_nat (length (filter failed_make cs)) \<noteq> usrp_counter g) \<and>
      (unat (usrp_counter g) + 1 + length (filter failed_make cs) < 2 ^ 64 \<longrightarrow>
         usrp_counter g < usrp_counter g + 1 + of_nat (length (filter failed_make cs))))"
proof (intro conjI impI)
  show "uhd_usrp_make g h (Inl f) =
     Returns (error_from_fault f)
       (g\<lparr>usrp_counter := usrp_counter g + 1\<rparr>, h,
        [Lock usrp_make_mutex, Native ''multi_usrp::make'', Unlock usrp_make_mutex])"
    by (rule make_fault)
  show "error_from_fault f \<noteq> UHD_ERROR_NONE"
    by (rule error_from_fault_failure)
  show "get_usrp_ptrs (g\<lparr>usrp_counter := usrp_counter g + 1\<rparr>) = get_usrp_ptrs g"
    by simp
next
  assume "list_all (\<lambda>c. \<not> successful_make c) cs"
  from run_calls_counter [OF this, of "g\<lparr>usrp_counter := usrp_counter g + 1\<rparr>"]
  have "usrp_counter (run_calls (g\<lparr>usrp_counter := usrp_counter g + 1\<rparr>) cs) =
          usrp_counter g + 1 + of_nat (length (filter failed_make cs))"
    by simp
  then show "\<exists>g2 evs.
         uhd_usrp_make (run_calls (g\<lparr>usrp_counter := usrp_counter g + 1\<rparr>) cs) h_next (Inr d) =
           Returns UHD_ERROR_NONE
             (g2,
              Some \<lparr>usrp_index = usrp_counter g + 1 + of_nat (length (filter failed_make cs)),
                    last_error = []\<rparr>,
              evs)"
    by (simp add: make_ok)
next
  assume "length (filter failed_make cs) + 1 < 2 ^ 64"
  then have "usrp_counter g + of_nat (Suc (length (filter failed_make cs))) \<noteq> usrp_counter g"
    by (intro counter_plus_neq) simp_all
  then show "usrp_counter g + 1 + of_nat (length (filter failed_make cs)) \<noteq> usrp_counter g"
    by (simp add: add.assoc)
next
  assume "unat (usrp_counter g) + 1 + length (filter failed_make cs) < 2 ^ 64"
  then have "usrp_counter g < usrp_counter g + of_nat (Suc (length (filter failed_make cs)))"
    by (intro counter_plus_less) simp_all
  then show "usrp_counter g < usrp_counter g + 1 + of_nat (length (filter failed_make cs))"
    by (simp add: add.assoc)
qed

theorem failed_make_consumes_index_witness:
  "uhd_usrp_make example_globals None (Inl (Fault Runtime_fault ''no device'')) =
     Returns UHD_ERROR_RUNTIME
       (example_globals\<lparr>usrp_counter := 3\<rparr>, None,
        [Lock usrp_make_mutex, Native ''multi_usrp::make'', Unlock usrp_make_mutex]) \<and>
   list_all (\<lambda>c. \<not> successful_make c)
     [Usrp_make None (Inl (Fault Runtime_fault ''no device'')),
      Rx_streamer_free (Some example_streamer) :: unit api_call] \<and>
   (\<exists>g2 evs.
      uhd_usrp_make
          (run_calls (example_globals\<lparr>usrp_counter := 3\<rparr>)
             [Usrp_make None (Inl (Fault Runtime_fault ''no device'')),
              Rx_streamer_free (Some example_streamer) :: unit api_call])
          None (Inr 12) =
        Returns UHD_ERROR_NONE (g2, Some \<lparr>usrp_index = 4, last_error = []\<rparr>, evs)) \<and>
   (1 :: nat) + 1 < 2 ^ 64 \<and>
   (4 :: size_t) \<noteq> 2 \<and>
   unat (2 :: size_t) + 1 + 1 < 2 ^ 64 \<and>
   (2 :: size_t) < 4"
proof -
  have c: "usrp_counter example_globals = 2"
    by (simp add: example_globals_def)
  from failed_make_consumes_index
    [of example_globals None "Fault Runtime_fault ''no device''"
       "[Usrp_make None (Inl (Fault Runtime_fault ''no device'')),
         Rx_streamer_free (Some example_streamer) :: unit api_call]" None 12]
  show ?thesis by (simp add: c)
qed

text \<open>
  The claim as stated fails when the counter wraps around, in two ways. In a process
  that starts with the counter at 0 and an empty registry, \<open>2 ^ 64 - 1\<close> failed
  creations leave the counter at \<open>2 ^ 64 - 1\<close>; one more failed creation consumes
  that index, and the next successful creation receives index \<open>0\<close>, which is not
  larger. And when the first creation of the process fails, it consumes index \<open>0\<close>;
  after \<open>2 ^ 64 - 1\<close> more failed creations the counter is back at \<open>0\<close>, and the
  next successful creation receives the consumed index itself.
\<close>

theorem failed_make_wrap_counterexample:
  "fst (make_all empty_globals
          (replicate (2 ^ 64 - 1) (Inl (Fault Runtime_fault ''no device'')))) =
     \<lparr>usrp_counter = - 1, get_usrp_ptrs = Map.empty\<rparr> \<and>
   uhd_usrp_make \<lparr>usrp_counter = - 1, get_usrp_ptrs = Map.empty\<rparr> None
       (Inl (Fault Runtime_fault ''no device'')) =
     Returns UHD_ERROR_RUNTIME
       (\<lparr>usrp_counter = 0, get_usrp_ptrs = Map.empty\<rparr>, None,
        [Lock usrp_make_mutex, Native ''multi_usrp::make'', Unlock usrp_make_mutex]) \<and>
   uhd_usrp_make \<lparr>usrp_counter = 0, get_usrp_ptrs = Map.empty\<rparr> None (Inr 10) =
     Returns UHD_ERROR_NONE
       (\<lparr>usrp_counter = 1,
         get_usrp_ptrs = [0 \<mapsto> \<lparr>ptr = Some 10, rx_streamers = [], tx_streamers = []\<rparr>]\<rparr>,
        Some \<lparr>usrp_index = 0, last_error = []\<rparr>,
        [Lock usrp_make_mutex, Native ''multi_usrp::make'', Unlock usrp_make_mutex]) \<and>
   \<not> ((- 1 :: size_t) < 0) \<and>
   uhd_usrp_make empty_globals None (Inl (Fault Runtime_fault ''no device'')) =
     Returns UHD_ERROR_RUNTIME
       (\<lparr>usrp_counter = 1, get_usrp_ptrs = Map.empty\<rparr>, None,
        [Lock usrp_make_mutex, Native ''multi_usrp::make'', Unlock usrp_make_mutex]) \<and>
   usrp_counter empty_globals = 0 \<and>
   fst (make_all \<lparr>usrp_counter = 1, get_usrp_ptrs = Map.empty\<rparr>
          (replicate (2 ^ 64 - 1) (Inl (Fault Runtime_fault ''no device'')))) =
     \<lparr>usrp_counter = 0, get_usrp_ptrs = Map.empty\<rparr>"
proof -
  have n: "(of_nat (2 ^ 64 - 1) :: size_t) = - 1"
    by simp
  have "fst (make_all empty_globals
          (replicate (2 ^ 64 - 1) (Inl (Fault Runtime_fault ''no device'')))) =
     \<lparr>usrp_counter = - 1, get_usrp_ptrs = Map.empty\<rparr>"
    by (simp only: make_all_failures counter_after_failures) simp
  moreover have "fst (make_all \<lparr>usrp_counter = 1, get_usrp_ptrs = Map.empty\<rparr>
          (replicate (2 ^ 64 - 1) (Inl (Fault Runtime_fault ''no device'')))) =
     \<lparr>usrp_counter = 0, get_usrp_ptrs = Map.empty\<rparr>"
    using n by (simp only: make_all_failures) simp
  ultimately show ?thesis
    by (simp add: make_fault make_ok empty_globals_def)
qed

subsection \<open>Locks held across native calls\<close>

lemma make_events_eq:
  "make_events (uhd_usrp_make g h made) =
     [Lock usrp_make_mutex, Native ''multi_usrp::make'', Unlock usrp_make_mutex]"
  by (cases made) (simp_all add: make_events_def make_fault make_ok)

lemma rx_attach_events_eq:
  assumes "get_usrp_ptrs g (usrp_index h_u) = Some e" and "ptr e = Some d"
  shows "attach_events (uhd_usrp_get_rx_stream n g h_u h_s) =
     [Lock usrp_get_rx_stream_mutex, Native ''get_rx_stream'', Unlock usrp_get_rx_stream_mutex]"
proof (cases "n d")
  case (Inl f)
  from rx_attach_fault [where n = n, OF assms Inl] show ?thesis
    by (simp add: attach_events_def)
next
  case (Inr s)
  from rx_attach_ok [where n = n, OF assms Inr] show ?thesis
    by (simp add: attach_events_def)
qed

lemma tx_attach_events_eq:
  assumes "get_usrp_ptrs g (usrp_index h_u) = Some e" and "ptr e = Some d"
  shows "attach_events (uhd_usrp_get_tx_stream n g h_u h_s) =
     [Lock usrp_get_tx_stream_mutex, Native ''get_tx_stream'', Unlock usrp_get_tx_stream_mutex]"
proof (cases "n d")
  case (Inl f)
  from tx_attach_fault [where n = n, OF assms Inl] show ?thesis
    by (simp add: attach_events_def)
next
  case (Inr s)
  from tx_attach_ok [where n = n, OF assms Inr] show ?thesis
    by (simp add: attach_events_def)
qed

lemma free_events_eq:
  assumes "get_usrp_ptrs g (usrp_index h) = Some e"
  shows "free_events (uhd_usrp_free g (Some h)) =
     [Lock usrp_free_mutex, Native ''~usrp_ptr'', Unlock usrp_free_mutex]"
  using free_present [OF assms] by (simp add: free_events_def)

text \<open>
  C10, as amended. Each of the three registry locks is taken when its operation
  starts and released when the operation returns, and the native code of the
  operation runs in between. The creation lock is held across the native device
  construction, whether it succeeds or throws. The two stream-acquisition locks are
  held across the native streamer construction, on every live device whose device
  pointer is set. The destruction lock is held across the destructors of the device
  and its streamers, which erasing the entry runs, on every handle whose index is
  registered.
\<close>

theorem locks_held_across_native_calls:
  "make_events (uhd_usrp_make g h made) =
     [Lock usrp_make_mutex, Native ''multi_usrp::make'', Unlock usrp_make_mutex] \<and>
   native_while_locked [] (make_events (uhd_usrp_make g h made)) \<and>
   (get_usrp_ptrs g (usrp_index h_u) = Some e \<and> ptr e = Some d \<longrightarrow>
      attach_events (uhd_usrp_get_rx_stream n g h_u h_s) =
        [Lock usrp_get_rx_stream_mutex, Native ''get_rx_stream'',
         Unlock usrp_get_rx_stream_mutex] \<and>
      native_while_locked [] (attach_events (uhd_usrp_get_rx_stream n g h_u h_s)) \<and>
      attach_events (uhd_usrp_get_tx_stream n g h_u h_s) =
        [Lock usrp_get_tx_stream_mutex, Native ''get_tx_stream'',
         Unlock usrp_get_tx_stream_mutex] \<and>
      native_while_locked [] (attach_events (uhd_usrp_get_tx_stream n g h_u h_s))) \<and>
   (get_usrp_ptrs g (usrp_index h_f) \<noteq> None \<longrightarrow>
      free_events (uhd_usrp_free g (Some h_f)) =
        [Lock usrp_free_mutex, Native ''~usrp_ptr'', Unlock usrp_free_mutex] \<and>
      native_while_locked [] (free_events (uhd_usrp_free g (Some h_f))))"
proof (intro conjI impI)
  show "make_events (uhd_usrp_make g h made) =
     [Lock usrp_make_mutex, Native ''multi_usrp::make'', Unlock usrp_make_mutex]"
    by (rule make_events_eq)
  show "native_while_locked [] (make_events (uhd_usrp_make g h made))"
    by (simp add: make_events_eq)
next
  assume a: "get_usrp_ptrs g (usrp_index h_u) = Some e \<and> ptr e = Some d"
  then have e: "get_usrp_ptrs g (usrp_index h_u) = Some e" and d: "ptr e = Some d"
    by simp_all
  show "attach_events (uhd_usrp_get_rx_stream n g h_u h_s) =
        [Lock usrp_get_rx_stream_mutex, Native ''get_rx_stream'',
         Unlock usrp_get_rx_stream_mutex]"
    using e d by (rule rx_attach_events_eq)
  then show "native_while_locked [] (attach_events (uhd_usrp_get_rx_stream n g h_u h_s))"
    by simp
  show "attach_events (uhd_usrp_get_tx_stream n g h_u h_s) =
        [Lock usrp_get_tx_stream_mutex, Native ''get_tx_stream'',
         Unlock usrp_get_tx_stream_mutex]"
    using e d by (rule tx_attach_events_eq)
  then show "native_while_locked [] (attach_events (uhd_usrp_get_tx_stream n g h_u h_s))"
    by simp
next
  assume "get_usrp_ptrs g (usrp_index h_f) \<noteq> None"
  then obtain e_f where "get_usrp_ptrs g (usrp_index h_f) = Some e_f" by auto
  then show f: "free_events (uhd_usrp_free g (Some h_f)) =
        [Lock usrp_free_mutex, Native ''~usrp_ptr'', Unlock usrp_free_mutex]"
    by (rule free_events_eq)
  then show "native_while_locked [] (free_events (uhd_usrp_free g (Some h_f)))"
    by simp
qed

theorem locks_held_across_native_calls_witness:
  "get_usrp_ptrs example_globals (usrp_index (example_usrp 0)) =
     Some \<lparr>ptr = Some 10, rx_streamers = [20], tx_streamers = []\<rparr> \<and>
   native_while_locked []
     (attach_events
        (uhd_usrp_get_rx_stream (\<lambda>d. Inr 21) example_globals (example_usrp 0) example_streamer)) \<and>
   native_while_locked []
     (attach_events
        (uhd_usrp_get_tx_stream (\<lambda>d. Inl (Fault Unknown_fault ''busy'')) example_globals
           (example_usrp 0) example_streamer)) \<and>
   get_usrp_ptrs example_globals (usrp_index (example_usrp 1)) \<noteq> None \<and>
   free_events (uhd_usrp_free example_globals (Some (example_usrp 1))) =
     [Lock usrp_free_mutex, Native ''~usrp_ptr'', Unlock usrp_free_mutex] \<and>
   native_while_locked [] (free_events (uhd_usrp_free example_globals (Some (example_usrp 1))))"
proof -
  have e: "get_usrp_ptrs example_globals (usrp_index (example_usrp 0)) =
     Some \<lparr>ptr = Some 10, rx_streamers = [20], tx_streamers = []\<rparr>"
    by (simp add: example_globals_def example_usrp_def)
  have f: "get_usrp_ptrs example_globals (usrp_index (example_usrp 1)) \<noteq> None"
    by (simp add: example_globals_def example_usrp_def)
  from locks_held_across_native_calls
    [where g = example_globals and h_u = "example_usrp 0" and h_s = example_streamer
       and e = "\<lparr>ptr = Some 10, rx_streamers = [20], tx_streamers = []\<rparr>" and d = 10
       and n = "\<lambda>d. Inr 21" and h_f = "example_usrp 1"]
    locks_held_across_native_calls
    [where g = example_globals and h_u = "example_usrp 0" and h_s = example_streamer
       and e = "\<lparr>ptr = Some 10, rx_streamers = [20], tx_streamers = []\<rparr>" and d = 10
       and n = "\<lambda>d. Inl (Fault Unknown_fault ''busy'')" and h_f = "example_usrp 1"]
    e f
  show ?thesis by simp
qed

text \<open>
  The claim as stated fails for each of the three locks. On the first creation of a
  process, the trace of \<open>uhd_usrp_make\<close> has the native construction between taking
  and releasing the creation lock. On a registry with two devices, the trace of
  \<open>uhd_usrp_get_rx_stream\<close> has the native streamer construction between taking and
  releasing the stream-acquisition lock, and the trace of \<open>uhd_usrp_free\<close> has the
  native destructors between taking and releasing the destruction lock.
\<close>

theorem locks_held_across_native_counterexample:
  "make_events (uhd_usrp_make empty_globals None (Inr 10)) =
     [Lock usrp_make_mutex, Native ''multi_usrp::make'', Unlock usrp_make_mutex] \<and>
   native_while_locked [] (make_events (uhd_usrp_make empty_globals None (Inr 10))) \<and>
   attach_events
     (uhd_usrp_get_rx_stream (\<lambda>d. Inr 21) example_globals (example_usrp 0) example_streamer) =
     [Lock usrp_get_rx_stream_mutex, Native ''get_rx_stream'', Unlock usrp_get_rx_stream_mutex] \<and>
   native_while_locked []
     (attach_events
        (uhd_usrp_get_rx_stream (\<lambda>d. Inr 21) example_globals (example_usrp 0) example_streamer)) \<and>
   free_events (uhd_usrp_free example_globals (Some (example_usrp 0))) =
     [Lock usrp_free_mutex, Native ''~usrp_ptr'', Unlock usrp_free_mutex] \<and>
   native_while_locked [] (free_events (uhd_usrp_free example_globals (Some (example_usrp 0))))"
proof -
  have m: "make_events (uhd_usrp_make empty_globals None (Inr 10)) =
     [Lock usrp_make_mutex, Native ''multi_usrp::make'', Unlock usrp_make_mutex]"
    by (simp add: make_events_def uhd_usrp_make_def Let_def)
  have a: "attach_events
     (uhd_usrp_get_rx_stream (\<lambda>d. Inr 21) example_globals (example_usrp 0) example_streamer) =
     [Lock usrp_get_rx_stream_mutex, Native ''get_rx_stream'', Unlock usrp_get_rx_stream_mutex]"
    by (simp add: attach_events_def uhd_usrp_get_rx_stream_def map_count_def map_index_def
        example_globals_def example_usrp_def)
  have f: "free_events (uhd_usrp_free example_globals (Some (example_usrp 0))) =
     [Lock usrp_free_mutex, Native ''~usrp_ptr'', Unlock usrp_free_mutex]"
    by (simp add: free_events_def uhd_usrp_free_def map_count_def example_globals_def
        example_usrp_def)
  from m a f show ?thesis by simp
qed

end
